theory Spec2Isabelle
  imports Main "HOL-Library.AList"
begin

section \<open>The events channel of the SDK: data model\<close>

text \<open>
  This theory embeds the WebSocket events module of the SDK
  (\<^verbatim>\<open>src/modules/events.ts\<close>, the variant that authenticates with an in-band first
  frame, and \<^verbatim>\<open>src/types/events.ts\<close>) as a state machine.

  The class \<^verbatim>\<open>EventsModule\<close> becomes a record of its fields, extended by the parts of
  the JavaScript runtime that its callbacks close over: the socket objects, the armed
  timers, the promises it has handed out, the \<^verbatim>\<open>Map\<close> objects on the heap and the
  suspended \<^verbatim>\<open>_resubscribeAll\<close> loops. Every method and every callback is a function
  from state to state; what it does to the outside world is appended to the field
  \<open>effects\<close>. JavaScript numbers are modelled by unbounded integers (all the numbers of
  the module are millisecond counts and attempt counters); debug logging is left out.
\<close>

datatype ReadyState = CONNECTING | OPEN | CLOSING | CLOSED

record EventsModuleConfig =
  pingInterval :: int
  autoReconnect :: bool
  maxReconnectAttempts :: int
  reconnectDelay :: int
  maxReconnectDelay :: int
  debug :: bool

definition DEFAULT_CONFIG :: EventsModuleConfig where
  "DEFAULT_CONFIG = \<lparr> pingInterval = 30000, autoReconnect = True, maxReconnectAttempts = 5,
     reconnectDelay = 1000, maxReconnectDelay = 30000, debug = False \<rparr>"

datatype SubscriptionFilters =
  SubscriptionFilters (chat_ids: "string list option") (trip_ids: "string list option")
    (user_ids: "string list option") (events: "string list option")

datatype SubscriptionOptions =
  SubscriptionOptions (opt_filters: "SubscriptionFilters option") (opt_include_data: "bool option")

datatype Subscription =
  Subscription (sub_id: string) (sub_domain: string) (sub_resource: string)
    (sub_filters: SubscriptionFilters)

text \<open>An entry of the durable table: \<^verbatim>\<open>{ domain, resource, options? }\<close>.\<close>

datatype SubscriptionData =
  SubscriptionData (sd_domain: string) (sd_resource: string)
    (sd_options: "SubscriptionOptions option")

type_synonym table = "(string \<times> SubscriptionData) list"

text \<open>Inbound frames, by their \<^verbatim>\<open>type\<close>; anything else is \<open>unknown\<close>.\<close>

datatype WebSocketMessage =
    connected string string "string list"
  | auth_error "string option"
  | subscription_confirmed string string string SubscriptionFilters
  | unsubscribed string
  | notification string
  | system_notification string
  | pong
  | error_message string int
  | unknown string

text \<open>Outbound frames.\<close>

datatype Frame =
    auth string
  | subscribe_frame string string string SubscriptionFilters bool
  | unsubscribe_frame string
  | ping_frame
  | typing_event string string

datatype js_error = Error string

datatype EventName =
    ev_connect | ev_disconnect | ev_notification | ev_system_notification
  | ev_error | ev_subscription_confirmed | ev_reconnecting

datatype EventArg =
    ArgMessage WebSocketMessage
  | ArgError js_error
  | ArgString string
  | ArgNumber nat

text \<open>
  A listener is a function object: an identity (what \<^verbatim>\<open>Set\<close> compares) and a body
  that returns normally (\<open>None\<close>) or throws (\<open>Some err\<close>). Listeners that call back
  into the module are outside the model.
\<close>

datatype Callback = Callback (cb_id: nat) (cb_body: "EventArg \<Rightarrow> js_error option")

datatype Socket =
  Socket (readyState: ReadyState) (connectionTimeout: nat) (connectPromise: nat)

datatype TimerTask =
    ConnectionTimeoutTask nat
  | SubscriptionTimeoutTask string nat
  | ReconnectTask
  | PingTask

datatype Value = VConnected WebSocketMessage | VSubscription Subscription | VVoid

datatype PromiseState = Pending | Fulfilled Value | Rejected js_error

datatype Effect =
    NewWebSocket nat
  | WsSend nat Frame
  | WsClose nat "int option" string
  | Resolve nat Value
  | Reject nat js_error
  | Invoke nat EventName EventArg
  | ConsoleError EventName js_error
  | SetTimeout nat TimerTask int
  | SetInterval nat TimerTask int
  | ClearTimer nat
  | Uncaught js_error

text \<open>A pending subscription: the promise its \<^verbatim>\<open>resolve\<close>/\<^verbatim>\<open>reject\<close> belong to, and its data.\<close>

datatype PendingData = PendingData (pd_promise: nat) (pd_data: SubscriptionData)

record EventsModule =
  config :: EventsModuleConfig
  ws :: "nat option"
  pingIntervalId :: "nat option"
  reconnectAttempts :: nat
  reconnectTimeoutId :: "nat option"
  isConnecting :: bool
  isManualDisconnect :: bool
  subscriptions :: nat
  pendingSubscriptions :: "(string \<times> PendingData) list"
  listeners :: "EventName \<rightharpoonup> Callback list"
  userId :: "string option"
  bearerToken :: "string option"
  authResolve :: "nat option"
  authReject :: "nat option"
  sockets :: "nat \<rightharpoonup> Socket"
  timers :: "nat \<rightharpoonup> TimerTask"
  promises :: "nat \<Rightarrow> PromiseState"
  maps :: "nat \<Rightarrow> table"
  fresh :: nat
  awaiting :: "(nat \<times> SubscriptionData list) list"
  idStream :: "nat \<Rightarrow> string"
  ctorThrows :: "js_error option"
  effects :: "Effect list"

text \<open>
  \<open>subscriptions\<close> is the reference held by the private field \<^verbatim>\<open>this.subscriptions\<close>;
  the \<^verbatim>\<open>Map\<close> object itself lives in \<open>maps\<close>, next to the copies handed to callers.
  \<open>fresh\<close> is the next unused handle (socket, timer, promise or map).
  \<open>idStream\<close> is what the following calls of \<^verbatim>\<open>_generateId\<close> (random UUIDs) will
  return, and \<open>ctorThrows\<close> what \<^verbatim>\<open>new WebSocket(url)\<close> throws for the configured base
  URL, if it throws.
\<close>

section \<open>Runtime primitives\<close>

definition eff :: "Effect \<Rightarrow> EventsModule \<Rightarrow> EventsModule" where
  "eff e s = s\<lparr>effects := effects s @ [e]\<rparr>"

text \<open>JavaScript truthiness of \<^verbatim>\<open>string | null\<close>, and \<^verbatim>\<open>a || b\<close> on strings.\<close>

definition truthy :: "string option \<Rightarrow> bool" where
  "truthy t = (case t of None \<Rightarrow> False | Some x \<Rightarrow> x \<noteq> [])"

definition or_else :: "string \<Rightarrow> string \<Rightarrow> string" where
  "or_else a b = (if a = [] then b else a)"

text \<open>A promise settles once: calling \<^verbatim>\<open>resolve\<close> or \<^verbatim>\<open>reject\<close> again changes nothing.\<close>

definition settle :: "nat \<Rightarrow> PromiseState \<Rightarrow> EventsModule \<Rightarrow> EventsModule" where
  "settle p r s = (if promises s p = Pending then s\<lparr>promises := (promises s)(p := r)\<rparr> else s)"

definition resolve :: "nat \<Rightarrow> Value \<Rightarrow> EventsModule \<Rightarrow> EventsModule" where
  "resolve p v s = settle p (Fulfilled v) (eff (Resolve p v) s)"

definition reject :: "nat \<Rightarrow> js_error \<Rightarrow> EventsModule \<Rightarrow> EventsModule" where
  "reject p e s = settle p (Rejected e) (eff (Reject p e) s)"

definition new_promise :: "EventsModule \<Rightarrow> EventsModule" where
  "new_promise s = s\<lparr>promises := (promises s)(fresh s := Pending), fresh := Suc (fresh s)\<rparr>"

definition setTimeout :: "TimerTask \<Rightarrow> int \<Rightarrow> EventsModule \<Rightarrow> EventsModule" where
  "setTimeout task delay s =
     eff (SetTimeout (fresh s) task delay)
       (s\<lparr>timers := (timers s)(fresh s \<mapsto> task), fresh := Suc (fresh s)\<rparr>)"

definition setInterval :: "TimerTask \<Rightarrow> int \<Rightarrow> EventsModule \<Rightarrow> EventsModule" where
  "setInterval task delay s =
     eff (SetInterval (fresh s) task delay)
       (s\<lparr>timers := (timers s)(fresh s \<mapsto> task), fresh := Suc (fresh s)\<rparr>)"

definition clearTimer :: "nat \<Rightarrow> EventsModule \<Rightarrow> EventsModule" where
  "clearTimer h s = eff (ClearTimer h) (s\<lparr>timers := (timers s)(h := None)\<rparr>)"

definition ready :: "EventsModule \<Rightarrow> nat \<Rightarrow> ReadyState" where
  "ready s k = (case sockets s k of None \<Rightarrow> CLOSED | Some sock \<Rightarrow> readyState sock)"

definition set_ready :: "nat \<Rightarrow> ReadyState \<Rightarrow> EventsModule \<Rightarrow> EventsModule" where
  "set_ready k r s =
     (case sockets s k of None \<Rightarrow> s
      | Some sock \<Rightarrow>
          s\<lparr>sockets := (sockets s)(k \<mapsto> Socket r (connectionTimeout sock) (connectPromise sock))\<rparr>)"

text \<open>\<^verbatim>\<open>this.ws && this.ws.readyState === WebSocket.OPEN\<close>\<close>

definition ws_open :: "EventsModule \<Rightarrow> bool" where
  "ws_open s = (case ws s of None \<Rightarrow> False | Some k \<Rightarrow> ready s k = OPEN)"

text \<open>
  \<^verbatim>\<open>socket.send(data)\<close>: transmitted on an open socket, an \<^verbatim>\<open>InvalidStateError\<close> on a
  connecting one, silently discarded on a closing or closed one.
\<close>

definition ws_send :: "nat \<Rightarrow> Frame \<Rightarrow> EventsModule \<Rightarrow> js_error + EventsModule" where
  "ws_send k f s =
     (case ready s k of
        OPEN \<Rightarrow> Inr (eff (WsSend k f) s)
      | CONNECTING \<Rightarrow> Inl (Error ''InvalidStateError'')
      | _ \<Rightarrow> Inr s)"

text \<open>
  \<^verbatim>\<open>socket.close(code, reason)\<close>. A WebSocket accepts from its user the code 1000 and the
  codes 3000 to 4999 only, and a reason of at most 123 bytes: any other code is an
  \<^verbatim>\<open>InvalidAccessError\<close>, a longer reason a \<^verbatim>\<open>SyntaxError\<close>, and the socket is left as it
  was. An accepted call starts the closing handshake unless the socket is already
  closing or closed (\<open>start_closing\<close>).
\<close>

definition start_closing :: "nat \<Rightarrow> int option \<Rightarrow> string \<Rightarrow> EventsModule \<Rightarrow> EventsModule" where
  "start_closing k code reason s =
     eff (WsClose k code reason)
       (if ready s k = CONNECTING \<or> ready s k = OPEN then set_ready k CLOSING s else s)"

definition ws_close ::
  "nat \<Rightarrow> int option \<Rightarrow> string \<Rightarrow> EventsModule \<Rightarrow> js_error + EventsModule" where
  "ws_close k code reason s =
     (if (case code of None \<Rightarrow> False | Some c \<Rightarrow> c \<noteq> 1000 \<and> \<not> (3000 \<le> c \<and> c \<le> 4999))
      then Inl (Error ''InvalidAccessError'')
      else if 123 < length reason then Inl (Error ''SyntaxError'')
      else Inr (start_closing k code reason s))"

definition subs :: "EventsModule \<Rightarrow> table" where
  "subs s = maps s (subscriptions s)"

definition subs_update :: "(table \<Rightarrow> table) \<Rightarrow> EventsModule \<Rightarrow> EventsModule" where
  "subs_update f s = s\<lparr>maps := (maps s)(subscriptions s := f (maps s (subscriptions s)))\<rparr>"

text \<open>\<^verbatim>\<open>_generateId\<close>: the next random identifier.\<close>

definition generateId :: "EventsModule \<Rightarrow> string \<times> EventsModule" where
  "generateId s = (idStream s 0, s\<lparr>idStream := (\<lambda>n. idStream s (Suc n))\<rparr>)"

section \<open>The event dispatcher\<close>

text \<open>
  The bare call \<^verbatim>\<open>(callback as Function)(...args)\<close>: what it threw, if it threw, and
  the state after it.
\<close>

definition call_listener ::
  "EventName \<Rightarrow> EventArg \<Rightarrow> Callback \<Rightarrow> EventsModule \<Rightarrow> js_error option \<times> EventsModule" where
  "call_listener ev arg cb s = (cb_body cb arg, eff (Invoke (cb_id cb) ev arg) s)"

text \<open>\<^verbatim>\<open>try { callback(...args) } catch (err) { console.error(..., err) }\<close>\<close>

definition guarded_call ::
  "EventName \<Rightarrow> EventArg \<Rightarrow> Callback \<Rightarrow> EventsModule \<Rightarrow> js_error option \<times> EventsModule" where
  "guarded_call ev arg cb s =
     (case call_listener ev arg cb s of
        (None, s') \<Rightarrow> (None, s')
      | (Some err, s') \<Rightarrow> (None, eff (ConsoleError ev err) s'))"

text \<open>
  \<^verbatim>\<open>Set.prototype.forEach\<close>, in insertion order: an exception thrown by the body ends
  the iteration and propagates to the caller.
\<close>

fun forEach :: "('a \<Rightarrow> 's \<Rightarrow> js_error option \<times> 's) \<Rightarrow> 'a list \<Rightarrow> 's \<Rightarrow> js_error option \<times> 's" where
  "forEach f [] s = (None, s)"
| "forEach f (x # xs) s =
     (case f x s of (None, s') \<Rightarrow> forEach f xs s' | (Some err, s') \<Rightarrow> (Some err, s'))"

text \<open>\<^verbatim>\<open>_emit\<close>, with what it throws to its caller.\<close>

definition emit_outcome ::
  "EventName \<Rightarrow> EventArg \<Rightarrow> EventsModule \<Rightarrow> js_error option \<times> EventsModule" where
  "emit_outcome ev arg s =
     (case listeners s ev of
        None \<Rightarrow> (None, s)
      | Some cbs \<Rightarrow> forEach (guarded_call ev arg) cbs s)"

definition emit :: "EventName \<Rightarrow> EventArg \<Rightarrow> EventsModule \<Rightarrow> EventsModule" where
  "emit ev arg s = snd (emit_outcome ev arg s)"

definition on :: "EventName \<Rightarrow> Callback \<Rightarrow> EventsModule \<Rightarrow> EventsModule" where
  "on ev cb s =
     (let cur = (case listeners s ev of None \<Rightarrow> [] | Some cbs \<Rightarrow> cbs)
      in s\<lparr>listeners := (listeners s)(ev \<mapsto>
            (if cb_id cb \<in> set (map cb_id cur) then cur else cur @ [cb]))\<rparr>)"

definition off :: "EventName \<Rightarrow> Callback \<Rightarrow> EventsModule \<Rightarrow> EventsModule" where
  "off ev cb s =
     (case listeners s ev of
        None \<Rightarrow> s
      | Some cbs \<Rightarrow> s\<lparr>listeners := (listeners s)(ev \<mapsto> filter (\<lambda>c. cb_id c \<noteq> cb_id cb) cbs)\<rparr>)"

section \<open>Keep-alive\<close>

definition ping :: "EventsModule \<Rightarrow> EventsModule" where
  "ping s =
     (case ws s of
        None \<Rightarrow> s
      | Some k \<Rightarrow> if ready s k = OPEN then eff (WsSend k ping_frame) s else s)"

definition startPingInterval :: "EventsModule \<Rightarrow> EventsModule" where
  "startPingInterval s =
     (if pingInterval (config s) > 0
      then (setInterval PingTask (pingInterval (config s)) s)\<lparr>pingIntervalId := Some (fresh s)\<rparr>
      else s)"

definition stopPingInterval :: "EventsModule \<Rightarrow> EventsModule" where
  "stopPingInterval s =
     (case pingIntervalId s of
        None \<Rightarrow> s
      | Some h \<Rightarrow> (clearTimer h s)\<lparr>pingIntervalId := None\<rparr>)"

section \<open>The subscription registry\<close>

definition filters_or_empty :: "SubscriptionOptions option \<Rightarrow> SubscriptionFilters" where
  "filters_or_empty options =
     (case options of
        None \<Rightarrow> SubscriptionFilters None None None None
      | Some opts \<Rightarrow>
          (case opt_filters opts of
             None \<Rightarrow> SubscriptionFilters None None None None
           | Some f \<Rightarrow> f))"

definition include_data_or_false :: "SubscriptionOptions option \<Rightarrow> bool" where
  "include_data_or_false options =
     (case options of
        None \<Rightarrow> False
      | Some opts \<Rightarrow> (case opt_include_data opts of None \<Rightarrow> False | Some b \<Rightarrow> b))"

text \<open>
  \<^verbatim>\<open>subscribe\<close> returns its promise. The pending entry's \<^verbatim>\<open>resolve\<close> closure (record
  the subscription in the durable table, then resolve the promise) is applied in
  \<open>handleSubscriptionConfirmed\<close>; the entry holds what the closure captured.
\<close>

definition subscribe ::
  "string \<Rightarrow> string \<Rightarrow> SubscriptionOptions option \<Rightarrow> EventsModule \<Rightarrow> nat \<times> EventsModule" where
  "subscribe domain resource options s =
     (let p = fresh s; s0 = new_promise s in
      case ws s0 of
        None \<Rightarrow> (p, reject p (Error ''Not connected'') s0)
      | Some k \<Rightarrow>
          if ready s0 k \<noteq> OPEN then (p, reject p (Error ''Not connected'') s0)
          else
            let (subscriptionId, s1) = generateId s0;
                subscriptionData = SubscriptionData domain resource options;
                s2 = s1\<lparr>pendingSubscriptions :=
                       AList.update subscriptionId (PendingData p subscriptionData)
                         (pendingSubscriptions s1)\<rparr>;
                message = subscribe_frame subscriptionId domain resource
                            (filters_or_empty options) (include_data_or_false options);
                s3 = eff (WsSend k message) s2
            in (p, setTimeout (SubscriptionTimeoutTask subscriptionId p) 10000 s3))"

text \<open>The callback of the 10 s timer that \<^verbatim>\<open>subscribe\<close> arms.\<close>

definition subscriptionTimeout :: "string \<Rightarrow> nat \<Rightarrow> EventsModule \<Rightarrow> EventsModule" where
  "subscriptionTimeout subscriptionId p s =
     (if map_of (pendingSubscriptions s) subscriptionId \<noteq> None
      then reject p (Error ''Subscription timeout'')
             (s\<lparr>pendingSubscriptions := AList.delete subscriptionId (pendingSubscriptions s)\<rparr>)
      else s)"

definition unsubscribe :: "string \<Rightarrow> EventsModule \<Rightarrow> nat \<times> EventsModule" where
  "unsubscribe subscriptionId s =
     (let p = fresh s; s0 = new_promise s in
      case ws s0 of
        None \<Rightarrow> (p, reject p (Error ''Not connected'') s0)
      | Some k \<Rightarrow>
          if ready s0 k \<noteq> OPEN then (p, reject p (Error ''Not connected'') s0)
          else
            let s1 = eff (WsSend k (unsubscribe_frame subscriptionId)) s0;
                s2 = subs_update (AList.delete subscriptionId) s1
            in (p, resolve p VVoid s2))"

definition handleSubscriptionConfirmed ::
  "string \<Rightarrow> string \<Rightarrow> string \<Rightarrow> SubscriptionFilters \<Rightarrow> EventsModule \<Rightarrow> EventsModule" where
  "handleSubscriptionConfirmed subscription_id domain resource filters s =
     (let s1 =
        (case map_of (pendingSubscriptions s) subscription_id of
           None \<Rightarrow> s
         | Some pending \<Rightarrow>
             let s' = s\<lparr>pendingSubscriptions :=
                        AList.delete subscription_id (pendingSubscriptions s)\<rparr>;
                 subscription = Subscription subscription_id domain resource filters;
                 s'' = subs_update (AList.update (sub_id subscription) (pd_data pending)) s'
             in resolve (pd_promise pending) (VSubscription subscription) s'')
      in emit ev_subscription_confirmed
           (ArgMessage (subscription_confirmed subscription_id domain resource filters)) s1)"

text \<open>
  \<^verbatim>\<open>_resubscribeAll\<close> is an \<^verbatim>\<open>async\<close> loop: it awaits each \<^verbatim>\<open>subscribe\<close> inside a
  \<^verbatim>\<open>try\<close>/\<^verbatim>\<open>catch\<close>. The loop runs until it reaches a promise that is still pending,
  where it is suspended (an entry of \<open>awaiting\<close>: the promise and the subscriptions
  left to restore); a rejected promise is caught and the loop goes on.
\<close>

fun resubscribe_loop :: "SubscriptionData list \<Rightarrow> EventsModule \<Rightarrow> EventsModule" where
  "resubscribe_loop [] s = s"
| "resubscribe_loop (sub # rest) s =
     (case subscribe (sd_domain sub) (sd_resource sub) (sd_options sub) s of
        (p, s') \<Rightarrow>
          if promises s' p = Pending then s'\<lparr>awaiting := awaiting s' @ [(p, rest)]\<rparr>
          else resubscribe_loop rest s')"

definition resubscribeAll :: "EventsModule \<Rightarrow> EventsModule" where
  "resubscribeAll s =
     (let subscriptionsToRestore = subs s
      in resubscribe_loop (map snd subscriptionsToRestore) (subs_update (\<lambda>_. []) s))"

text \<open>
  After each callback the microtask queue is emptied: every suspended loop whose awaited
  promise has settled goes on.
\<close>

definition run_microtasks :: "EventsModule \<Rightarrow> EventsModule" where
  "run_microtasks s =
     (let resumed = filter (\<lambda>(p, rest). promises s p \<noteq> Pending) (awaiting s);
          s1 = s\<lparr>awaiting := filter (\<lambda>(p, rest). promises s p = Pending) (awaiting s)\<rparr>
      in foldl (\<lambda>s' (p, rest). resubscribe_loop rest s') s1 resumed)"

section \<open>The connection manager\<close>

text \<open>
  \<^verbatim>\<open>_scheduleReconnect\<close>. The counter has just been incremented when the delay is
  computed, so the exponent \<open>reconnectAttempts - 1\<close> is never negative.
\<close>

definition scheduleReconnect :: "EventsModule \<Rightarrow> EventsModule" where
  "scheduleReconnect s =
     (if int (reconnectAttempts s) \<ge> maxReconnectAttempts (config s)
      then emit ev_error (ArgError (Error ''Max reconnect attempts reached'')) s
      else
        let s1 = s\<lparr>reconnectAttempts := Suc (reconnectAttempts s)\<rparr>;
            delay = min (reconnectDelay (config s1) * 2 ^ (reconnectAttempts s1 - 1))
                        (maxReconnectDelay (config s1));
            s2 = emit ev_reconnecting (ArgNumber (reconnectAttempts s1)) s1
        in (setTimeout ReconnectTask delay s2)\<lparr>reconnectTimeoutId := Some (fresh s2)\<rparr>)"

text \<open>
  \<^verbatim>\<open>_connect\<close> (here \<open>private_connect\<close>) returns its promise. The new socket \<open>k\<close>
  remembers the timer and the promise that its four callbacks close over.
\<close>

definition private_connect :: "EventsModule \<Rightarrow> nat \<times> EventsModule" where
  "private_connect s =
     (let p = fresh s;
          s0 = (new_promise s)\<lparr>authResolve := Some p, authReject := Some p\<rparr>
      in case ctorThrows s0 of
           Some err \<Rightarrow>
             (p, reject p err (s0\<lparr>isConnecting := False, authResolve := None, authReject := None\<rparr>))
         | None \<Rightarrow>
             let k = fresh s0;
                 s1 = eff (NewWebSocket k)
                        (s0\<lparr>sockets := (sockets s0)(k \<mapsto> Socket CONNECTING (Suc k) p),
                            ws := Some k, fresh := Suc k\<rparr>)
             in (p, setTimeout (ConnectionTimeoutTask k) 10000 s1))"

definition connect :: "EventsModule \<Rightarrow> nat \<times> EventsModule" where
  "connect s =
     (if ws_open s then (fresh s, reject (fresh s) (Error ''Already connected'') (new_promise s))
      else if isConnecting s
      then (fresh s, reject (fresh s) (Error ''Connection in progress'') (new_promise s))
      else private_connect
             (s\<lparr>isConnecting := True, isManualDisconnect := False, reconnectAttempts := 0\<rparr>))"

text \<open>The callback of the 10 s timer armed by \<^verbatim>\<open>_connect\<close> for socket \<open>k\<close>.\<close>

definition connectionTimeoutFired :: "nat \<Rightarrow> EventsModule \<Rightarrow> EventsModule" where
  "connectionTimeoutFired k s =
     (case sockets s k of
        None \<Rightarrow> s
      | Some sock \<Rightarrow>
          (case ws s of
             None \<Rightarrow> s
           | Some j \<Rightarrow>
               if ready s j \<noteq> OPEN
               then (case ws_close j None [] s of
                       Inl e \<Rightarrow> eff (Uncaught e) s
                     | Inr s1 \<Rightarrow>
                         reject (connectPromise sock) (Error ''Connection timeout'')
                           (s1\<lparr>isConnecting := False, authResolve := None, authReject := None\<rparr>))
               else s))"

definition token_of :: "string option \<Rightarrow> string" where
  "token_of t = (case t of None \<Rightarrow> [] | Some x \<Rightarrow> x)"

text \<open>
  \<^verbatim>\<open>ws.onopen\<close> of socket \<open>k\<close>. \<^verbatim>\<open>this.ws!\<close> is the module's current socket, which
  need not be \<open>k\<close>; dereferencing \<^verbatim>\<open>null\<close> is a \<^verbatim>\<open>TypeError\<close>. An exception ends the
  callback where it is thrown: in the branch without token, \<^verbatim>\<open>reject(...)\<close> comes after
  \<^verbatim>\<open>this.ws!.close(1008, ...)\<close> and is reached only if that call returns.
\<close>

definition onopen :: "nat \<Rightarrow> EventsModule \<Rightarrow> EventsModule" where
  "onopen k s =
     (case sockets s k of
        None \<Rightarrow> s
      | Some sock \<Rightarrow>
          let s1 = clearTimer (connectionTimeout sock) s in
          if truthy (bearerToken s1) then
            (case ws s1 of
               None \<Rightarrow> eff (Uncaught (Error ''TypeError'')) s1
             | Some j \<Rightarrow>
                 (case ws_send j (auth (token_of (bearerToken s1))) s1 of
                    Inl e \<Rightarrow> eff (Uncaught e) s1
                  | Inr s2 \<Rightarrow> s2))
          else
            let s2 = s1\<lparr>isConnecting := False, authResolve := None, authReject := None\<rparr> in
            (case ws s2 of
               None \<Rightarrow> eff (Uncaught (Error ''TypeError'')) s2
             | Some j \<Rightarrow>
                 (case ws_close j (Some 1008) ''Missing authentication token'' s2 of
                    Inl e \<Rightarrow> eff (Uncaught e) s2
                  | Inr s3 \<Rightarrow>
                      reject (connectPromise sock) (Error ''Missing authentication token'') s3)))"

definition onerror :: "nat \<Rightarrow> EventsModule \<Rightarrow> EventsModule" where
  "onerror k s =
     (case sockets s k of
        None \<Rightarrow> s
      | Some sock \<Rightarrow>
          let s1 = (clearTimer (connectionTimeout sock) s)
                     \<lparr>isConnecting := False, authResolve := None, authReject := None\<rparr>;
              s2 = emit ev_error (ArgError (Error ''WebSocket error'')) s1
          in reject (connectPromise sock) (Error ''WebSocket error'') s2)"

definition onclose :: "nat \<Rightarrow> string \<Rightarrow> EventsModule \<Rightarrow> EventsModule" where
  "onclose k reason s =
     (case sockets s k of
        None \<Rightarrow> s
      | Some sock \<Rightarrow>
          let s1 = (stopPingInterval (clearTimer (connectionTimeout sock) s))
                     \<lparr>isConnecting := False\<rparr>;
              s2 = (case authReject s1 of
                      None \<Rightarrow> s1
                    | Some p \<Rightarrow>
                        (reject p (Error (or_else reason ''Connection closed before authentication'')) s1)
                          \<lparr>authResolve := None, authReject := None\<rparr>);
              s3 = emit ev_disconnect (ArgString (or_else reason ''Connection closed'')) s2
          in if \<not> isManualDisconnect s3 \<and> autoReconnect (config s3)
             then scheduleReconnect s3 else s3)"

text \<open>The callback of the reconnect timer: \<^verbatim>\<open>await this._connect()\<close>, rejection caught.\<close>

definition reconnectFired :: "EventsModule \<Rightarrow> EventsModule" where
  "reconnectFired s = snd (private_connect s)"

definition cleanup :: "EventsModule \<Rightarrow> EventsModule" where
  "cleanup s =
     (let s1 = stopPingInterval s;
          s2 = (case reconnectTimeoutId s1 of
                  None \<Rightarrow> s1
                | Some h \<Rightarrow> (clearTimer h s1)\<lparr>reconnectTimeoutId := None\<rparr>);
          s3 = foldl (\<lambda>s' pending. reject (pd_promise pending) (Error ''Connection closed'') s')
                 s2 (map snd (pendingSubscriptions s2))
      in s3\<lparr>pendingSubscriptions := []\<rparr>)"

text \<open>
  \<^verbatim>\<open>disconnect\<close>. An exception of \<^verbatim>\<open>this.ws.close\<close> would leave the method before
  \<^verbatim>\<open>this.ws = null\<close>.
\<close>

definition disconnect :: "EventsModule \<Rightarrow> EventsModule" where
  "disconnect s =
     (let s1 = cleanup (s\<lparr>isManualDisconnect := True\<rparr>)
      in case ws s1 of
           None \<Rightarrow> s1
         | Some k \<Rightarrow>
             (case ws_close k (Some 1000) ''Client disconnect'' s1 of
                Inl e \<Rightarrow> eff (Uncaught e) s1
              | Inr s2 \<Rightarrow> s2\<lparr>ws := None\<rparr>))"

definition setBearerToken :: "string option \<Rightarrow> EventsModule \<Rightarrow> EventsModule" where
  "setBearerToken token s = s\<lparr>bearerToken := token\<rparr>"

definition sendTypingEvent :: "string \<Rightarrow> string \<Rightarrow> EventsModule \<Rightarrow> EventsModule" where
  "sendTypingEvent chatId event s =
     (case ws s of
        None \<Rightarrow> s
      | Some k \<Rightarrow> if ready s k \<noteq> OPEN then s else eff (WsSend k (typing_event chatId event)) s)"

text \<open>\<^verbatim>\<open>updateConfig\<close>; \<open>merge\<close> is the spread of the partial configuration.\<close>

definition updateConfig ::
  "(EventsModuleConfig \<Rightarrow> EventsModuleConfig) \<Rightarrow> EventsModule \<Rightarrow> EventsModule" where
  "updateConfig merge s =
     (let s1 = s\<lparr>config := merge (config s)\<rparr>
      in if ws_open s1 then startPingInterval (stopPingInterval s1) else s1)"

text \<open>\<^verbatim>\<open>getSubscriptions\<close>: \<^verbatim>\<open>new Map(this.subscriptions)\<close>, a new object; its reference is returned.\<close>

definition getSubscriptions :: "EventsModule \<Rightarrow> nat \<times> EventsModule" where
  "getSubscriptions s =
     (fresh s, s\<lparr>maps := (maps s)(fresh s := maps s (subscriptions s)), fresh := Suc (fresh s)\<rparr>)"

definition isConnected :: "EventsModule \<Rightarrow> bool" where
  "isConnected s = ws_open s"

text \<open>
  \<^verbatim>\<open>_handleMessage\<close>. In the \<^verbatim>\<open>auth_error\<close> case \<^verbatim>\<open>this.ws?.close(1008, error)\<close> is the
  last statement: an exception of that call leaves the method with the state as it is
  and is caught by the \<^verbatim>\<open>try\<close>/\<^verbatim>\<open>catch\<close> of \<^verbatim>\<open>ws.onmessage\<close>.
\<close>

fun handleMessage :: "WebSocketMessage \<Rightarrow> EventsModule \<Rightarrow> EventsModule" where
  "handleMessage (connected user_id message system_subscriptions) s =
     (let s1 = emit ev_connect (ArgMessage (connected user_id message system_subscriptions))
                 (s\<lparr>isConnecting := False, userId := Some user_id\<rparr>);
          s2 = (case authResolve s1 of
                  None \<Rightarrow> s1
                | Some p \<Rightarrow>
                    (resolve p (VConnected (connected user_id message system_subscriptions)) s1)
                      \<lparr>authResolve := None, authReject := None\<rparr>);
          s3 = startPingInterval s2;
          s4 = (if reconnectAttempts s3 > 0 then resubscribeAll s3 else s3)
      in s4\<lparr>reconnectAttempts := 0\<rparr>)"
| "handleMessage (auth_error e) s =
     (let s1 = s\<lparr>isConnecting := False\<rparr>;
          error = or_else (token_of e) ''Authentication failed'';
          s2 = (case authReject s1 of
                  None \<Rightarrow> s1
                | Some p \<Rightarrow>
                    (reject p (Error error) s1)\<lparr>authResolve := None, authReject := None\<rparr>)
      in case ws s2 of
           None \<Rightarrow> s2
         | Some k \<Rightarrow> (case ws_close k (Some 1008) error s2 of Inl e \<Rightarrow> s2 | Inr s3 \<Rightarrow> s3))"
| "handleMessage (subscription_confirmed subscription_id domain resource filters) s =
     handleSubscriptionConfirmed subscription_id domain resource filters s"
| "handleMessage (unsubscribed subscription_id) s = subs_update (AList.delete subscription_id) s"
| "handleMessage (notification n) s = emit ev_notification (ArgMessage (notification n)) s"
| "handleMessage (system_notification n) s =
     emit ev_system_notification (ArgMessage (system_notification n)) s"
| "handleMessage pong s = s"
| "handleMessage (error_message m c) s = emit ev_error (ArgMessage (error_message m c)) s"
| "handleMessage (unknown t) s = s"

text \<open>\<^verbatim>\<open>ws.onmessage\<close>: \<open>None\<close> is data that \<^verbatim>\<open>JSON.parse\<close> rejects; it is dropped.\<close>

definition onmessage :: "WebSocketMessage option \<Rightarrow> EventsModule \<Rightarrow> EventsModule" where
  "onmessage data s = (case data of None \<Rightarrow> s | Some message \<Rightarrow> handleMessage message s)"

text \<open>The constructor: \<open>cfg\<close> is the merged configuration.\<close>

definition EventsModule_new ::
  "string option \<Rightarrow> EventsModuleConfig \<Rightarrow> (nat \<Rightarrow> string) \<Rightarrow> js_error option \<Rightarrow> EventsModule" where
  "EventsModule_new httpBearerToken cfg ids ctor =
     \<lparr> config = cfg, ws = None, pingIntervalId = None, reconnectAttempts = 0,
       reconnectTimeoutId = None, isConnecting = False, isManualDisconnect = False,
       subscriptions = 0, pendingSubscriptions = [], listeners = Map.empty, userId = None,
       bearerToken = (if truthy httpBearerToken then httpBearerToken else None),
       authResolve = None, authReject = None, sockets = Map.empty, timers = Map.empty,
       promises = (\<lambda>_. Pending), maps = (\<lambda>_. []), fresh = 1, awaiting = [],
       idStream = ids, ctorThrows = ctor, effects = [] \<rparr>"

section \<open>The event loop\<close>

text \<open>
  What can happen to a module: a call of one of its public methods, an event of one of
  its sockets, or a timer firing. The browser sets a socket's \<^verbatim>\<open>readyState\<close> before it
  calls the handler; \<^verbatim>\<open>open\<close> is delivered to a connecting socket and \<^verbatim>\<open>message\<close> to an
  open one. A timer fires only while it is armed, and a timeout is disarmed by firing.
\<close>

datatype Input =
    CallConnect
  | CallDisconnect
  | CallSubscribe string string "SubscriptionOptions option"
  | CallUnsubscribe string
  | CallOn EventName Callback
  | CallOff EventName Callback
  | CallSendTypingEvent string string
  | CallGetSubscriptions
  | CallPing
  | CallUpdateConfig "EventsModuleConfig \<Rightarrow> EventsModuleConfig"
  | CallSetBearerToken "string option"
  | SocketOpens nat
  | SocketMessage nat "WebSocketMessage option"
  | SocketError nat
  | SocketCloses nat string
  | TimerFires nat

definition fire :: "nat \<Rightarrow> EventsModule \<Rightarrow> EventsModule" where
  "fire h s =
     (case timers s h of
        None \<Rightarrow> s
      | Some PingTask \<Rightarrow> ping s
      | Some (ConnectionTimeoutTask k) \<Rightarrow>
          connectionTimeoutFired k (s\<lparr>timers := (timers s)(h := None)\<rparr>)
      | Some (SubscriptionTimeoutTask subscriptionId p) \<Rightarrow>
          subscriptionTimeout subscriptionId p (s\<lparr>timers := (timers s)(h := None)\<rparr>)
      | Some ReconnectTask \<Rightarrow> reconnectFired (s\<lparr>timers := (timers s)(h := None)\<rparr>))"

fun handle :: "Input \<Rightarrow> EventsModule \<Rightarrow> EventsModule" where
  "handle CallConnect s = snd (connect s)"
| "handle CallDisconnect s = disconnect s"
| "handle (CallSubscribe domain resource options) s = snd (subscribe domain resource options s)"
| "handle (CallUnsubscribe subscriptionId) s = snd (unsubscribe subscriptionId s)"
| "handle (CallOn ev cb) s = on ev cb s"
| "handle (CallOff ev cb) s = off ev cb s"
| "handle (CallSendTypingEvent chatId event) s = sendTypingEvent chatId event s"
| "handle CallGetSubscriptions s = snd (getSubscriptions s)"
| "handle CallPing s = ping s"
| "handle (CallUpdateConfig merge) s = updateConfig merge s"
| "handle (CallSetBearerToken token) s = setBearerToken token s"
| "handle (SocketOpens k) s =
     (if sockets s k \<noteq> None \<and> ready s k = CONNECTING then onopen k (set_ready k OPEN s) else s)"
| "handle (SocketMessage k data) s =
     (if sockets s k \<noteq> None \<and> ready s k = OPEN then onmessage data s else s)"
| "handle (SocketError k) s = onerror k (set_ready k CLOSED s)"
| "handle (SocketCloses k reason) s = onclose k reason (set_ready k CLOSED s)"
| "handle (TimerFires h) s = fire h s"

definition step :: "Input \<Rightarrow> EventsModule \<Rightarrow> EventsModule" where
  "step i s = run_microtasks (handle i s)"

definition run :: "Input list \<Rightarrow> EventsModule \<Rightarrow> EventsModule" where
  "run inputs s = foldl (\<lambda>s' i. step i s') s inputs"

section \<open>Observations on the effect log, and scenarios\<close>

text \<open>
  What one guarded listener call leaves in the effect log, what an emission leaves, and
  the listeners registered for an event, in registration order.
\<close>

definition listener_effects :: "EventName \<Rightarrow> EventArg \<Rightarrow> Callback \<Rightarrow> Effect list" where
  "listener_effects ev arg cb =
     Invoke (cb_id cb) ev arg #
     (case cb_body cb arg of None \<Rightarrow> [] | Some err \<Rightarrow> [ConsoleError ev err])"

definition listener_trace :: "EventName \<Rightarrow> EventArg \<Rightarrow> Callback list \<Rightarrow> Effect list" where
  "listener_trace ev arg cbs = concat (map (listener_effects ev arg) cbs)"

definition registered :: "EventsModule \<Rightarrow> EventName \<Rightarrow> Callback list" where
  "registered s ev = (case listeners s ev of None \<Rightarrow> [] | Some cbs \<Rightarrow> cbs)"

text \<open>
  Observations, each in the order of the effect log: the delays of the reconnect timers
  armed; the listeners invoked; the errors written to the console; the errors delivered
  to the \<^verbatim>\<open>error\<close> listeners; the frames sent. \<open>backoff cfg n\<close> is the capped exponential
  delay of attempt \<open>n\<close>, and \<open>thrown\<close> what the bodies of the listeners throw.
\<close>

fun reconnect_delay :: "Effect \<Rightarrow> int list" where
  "reconnect_delay (SetTimeout h ReconnectTask d) = [d]"
| "reconnect_delay _ = []"

definition reconnect_delays :: "Effect list \<Rightarrow> int list" where
  "reconnect_delays es = concat (map reconnect_delay es)"

definition backoff :: "EventsModuleConfig \<Rightarrow> nat \<Rightarrow> int" where
  "backoff cfg n = min (reconnectDelay cfg * 2 ^ (n - 1)) (maxReconnectDelay cfg)"

definition invoked :: "Effect list \<Rightarrow> nat list" where
  "invoked es = concat (map (\<lambda>e. case e of Invoke l ev arg \<Rightarrow> [l] | _ \<Rightarrow> []) es)"

definition logged :: "Effect list \<Rightarrow> js_error list" where
  "logged es = concat (map (\<lambda>e. case e of ConsoleError ev err \<Rightarrow> [err] | _ \<Rightarrow> []) es)"

definition thrown :: "EventArg \<Rightarrow> Callback list \<Rightarrow> js_error list" where
  "thrown arg cbs = concat (map (\<lambda>cb. case cb_body cb arg of None \<Rightarrow> [] | Some err \<Rightarrow> [err]) cbs)"

fun is_reject :: "Effect \<Rightarrow> bool" where
  "is_reject (Reject p e) = True"
| "is_reject _ = False"

fun error_event :: "Effect \<Rightarrow> (nat \<times> js_error) list" where
  "error_event (Invoke l ev_error (ArgError e)) = [(l, e)]"
| "error_event _ = []"

definition error_events :: "Effect list \<Rightarrow> (nat \<times> js_error) list" where
  "error_events es = concat (map error_event es)"

fun sent_frame :: "Effect \<Rightarrow> (nat \<times> Frame) list" where
  "sent_frame (WsSend k f) = [(k, f)]"
| "sent_frame _ = []"

definition sent_frames :: "Effect list \<Rightarrow> (nat \<times> Frame) list" where
  "sent_frames es = concat (map sent_frame es)"

text \<open>
  \<open>quiet s s'\<close>: between \<open>s\<close> and \<open>s'\<close> promises have been created and rejected and
  suspended loops have moved, and nothing else: no frame, no timer, no change of a field
  of the class. The promises that existed in \<open>s\<close> are as they were.
\<close>

definition quiet :: "EventsModule \<Rightarrow> EventsModule \<Rightarrow> bool" where
  "quiet s s' \<longleftrightarrow>
     (\<exists>es. s' = s\<lparr>promises := promises s', fresh := fresh s', awaiting := awaiting s',
                   effects := effects s @ es\<rparr> \<and> list_all is_reject es) \<and>
     fresh s \<le> fresh s' \<and> (\<forall>p<fresh s. promises s' p = promises s p)"

text \<open>
  Losses of connection. \<open>socket_lost\<close>: the module's current socket closes;
  \<open>retry_fires\<close>: the reconnect timer that the module holds fires, if it is armed; an
  \<open>outage\<close> is a sequence of losses (one close reason each), each followed by the retry.
  \<open>retrying\<close>: the module reconnects after a loss and can create its socket.
  \<open>max_errors\<close>: the error that each \<^verbatim>\<open>error\<close> listener receives when the attempts are
  exhausted.
\<close>

definition max_errors :: "EventsModule \<Rightarrow> (nat \<times> js_error) list" where
  "max_errors s = map (\<lambda>cb. (cb_id cb, Error ''Max reconnect attempts reached'')) (registered s ev_error)"

definition socket_lost :: "string \<Rightarrow> EventsModule \<Rightarrow> EventsModule" where
  "socket_lost reason s = (case ws s of None \<Rightarrow> s | Some k \<Rightarrow> step (SocketCloses k reason) s)"

definition retry_fires :: "EventsModule \<Rightarrow> EventsModule" where
  "retry_fires s =
     (case reconnectTimeoutId s of
        None \<Rightarrow> s
      | Some h \<Rightarrow> if timers s h = Some ReconnectTask then step (TimerFires h) s else s)"

fun outage :: "string list \<Rightarrow> EventsModule \<Rightarrow> EventsModule" where
  "outage [] s = s"
| "outage (reason # reasons) s = outage reasons (retry_fires (socket_lost reason s))"

definition retrying :: "EventsModule \<Rightarrow> bool" where
  "retrying s \<longleftrightarrow>
     autoReconnect (config s) \<and> \<not> isManualDisconnect s \<and> ctorThrows s = None \<and>
     (case ws s of None \<Rightarrow> False | Some k \<Rightarrow> sockets s k \<noteq> None)"

text \<open>
  Example states: a module constructed with a token and the default configuration, whose
  identifiers will be \<open>i\<close>, \<open>ii\<close>, \<open>iii\<close>, ...; the same module connected and
  authenticated on socket 2; with an \<^verbatim>\<open>error\<close> listener registered.
\<close>

definition example_ids :: "nat \<Rightarrow> string" where
  "example_ids n = replicate (Suc n) CHR ''i''"

definition fresh_module :: EventsModule where
  "fresh_module = EventsModule_new (Some ''token'') DEFAULT_CONFIG example_ids None"

definition connected_module :: EventsModule where
  "connected_module =
     run [CallConnect, SocketOpens 2, SocketMessage 2 (Some (connected ''u1'' ''welcome'' []))]
       fresh_module"

definition observed_module :: EventsModule where
  "observed_module = step (CallOn ev_error (Callback 7 (\<lambda>_. None))) connected_module"

text \<open>
  The loop of \<^verbatim>\<open>_cleanup\<close> over the pending requests; the connected module with one
  subscribe request pending; a module constructed without a token.
\<close>

definition reject_all :: "js_error \<Rightarrow> PendingData list \<Rightarrow> EventsModule \<Rightarrow> EventsModule" where
  "reject_all e pds s = foldl (\<lambda>s' pending. reject (pd_promise pending) e s') s pds"

definition subscribed_module :: EventsModule where
  "subscribed_module = step (CallSubscribe ''chat'' ''message'' None) connected_module"

definition tokenless_module :: EventsModule where
  "tokenless_module = EventsModule_new None DEFAULT_CONFIG example_ids None"

text \<open>
  The registry as a ledger: the requests outstanding and the subscriptions confirmed,
  both by identifier. \<open>registry_event\<close> reads an input as an event of the ledger: a
  \<^verbatim>\<open>subscribe\<close> call on an open socket requests, a delivered \<^verbatim>\<open>subscription_confirmed\<close>
  frame confirms, the timer of a request times it out, an \<^verbatim>\<open>unsubscribe\<close> call on an open
  socket or a delivered \<^verbatim>\<open>unsubscribed\<close> frame removes. \<open>keeps_connection\<close> holds for
  the inputs that neither open nor close a connection, \<open>ledger_of\<close> is the ledger that a
  module state stands for, and a session is settled when no reconnection is under way.
\<close>

datatype RegistryEvent =
    Requested string SubscriptionData
  | Confirmed string
  | TimedOut string
  | Unsubscribed string
  | Unrelated

type_synonym ledger = "(string \<rightharpoonup> SubscriptionData) \<times> (string \<rightharpoonup> SubscriptionData)"

fun ledger_step :: "RegistryEvent \<Rightarrow> ledger \<Rightarrow> ledger" where
  "ledger_step (Requested subscriptionId d) (requested, confirmed) =
     (requested(subscriptionId \<mapsto> d), confirmed)"
| "ledger_step (Confirmed subscriptionId) (requested, confirmed) =
     (case requested subscriptionId of
        None \<Rightarrow> (requested, confirmed)
      | Some d \<Rightarrow> (requested(subscriptionId := None), confirmed(subscriptionId \<mapsto> d)))"
| "ledger_step (TimedOut subscriptionId) (requested, confirmed) =
     (requested(subscriptionId := None), confirmed)"
| "ledger_step (Unsubscribed subscriptionId) (requested, confirmed) =
     (requested, confirmed(subscriptionId := None))"
| "ledger_step Unrelated l = l"

definition delivered :: "nat \<Rightarrow> EventsModule \<Rightarrow> bool" where
  "delivered k s \<longleftrightarrow> sockets s k \<noteq> None \<and> ready s k = OPEN"

fun registry_event :: "Input \<Rightarrow> EventsModule \<Rightarrow> RegistryEvent" where
  "registry_event (CallSubscribe domain resource options) s =
     (if ws_open s then Requested (idStream s 0) (SubscriptionData domain resource options)
      else Unrelated)"
| "registry_event (CallUnsubscribe subscriptionId) s =
     (if ws_open s then Unsubscribed subscriptionId else Unrelated)"
| "registry_event (SocketMessage k (Some (subscription_confirmed subscriptionId d r f))) s =
     (if delivered k s then Confirmed subscriptionId else Unrelated)"
| "registry_event (SocketMessage k (Some (unsubscribed subscriptionId))) s =
     (if delivered k s then Unsubscribed subscriptionId else Unrelated)"
| "registry_event (TimerFires h) s =
     (case timers s h of
        Some (SubscriptionTimeoutTask subscriptionId p) \<Rightarrow> TimedOut subscriptionId
      | _ \<Rightarrow> Unrelated)"
| "registry_event _ s = Unrelated"

fun keeps_connection :: "Input \<Rightarrow> EventsModule \<Rightarrow> bool" where
  "keeps_connection CallConnect s = False"
| "keeps_connection CallDisconnect s = False"
| "keeps_connection (SocketOpens k) s = False"
| "keeps_connection (SocketError k) s = False"
| "keeps_connection (SocketCloses k reason) s = False"
| "keeps_connection (TimerFires h) s =
     (case timers s h of
        Some ReconnectTask \<Rightarrow> False
      | Some (ConnectionTimeoutTask k) \<Rightarrow> False
      | _ \<Rightarrow> True)"
| "keeps_connection _ s = True"

fun connected_run :: "Input list \<Rightarrow> EventsModule \<Rightarrow> bool" where
  "connected_run [] s = True"
| "connected_run (i # inputs) s = (keeps_connection i s \<and> connected_run inputs (step i s))"

fun ledger_run :: "Input list \<Rightarrow> EventsModule \<Rightarrow> ledger \<Rightarrow> ledger" where
  "ledger_run [] s l = l"
| "ledger_run (i # inputs) s l = ledger_run inputs (step i s) (ledger_step (registry_event i s) l)"

definition ledger_of :: "EventsModule \<Rightarrow> ledger" where
  "ledger_of s = (map_option pd_data \<circ> map_of (pendingSubscriptions s), map_of (subs s))"

definition settled_session :: "EventsModule \<Rightarrow> bool" where
  "settled_session s \<longleftrightarrow> reconnectAttempts s = 0 \<and> awaiting s = []"

text \<open>
  An example: two subscriptions requested and confirmed, the first unsubscribed, and a
  confirmation that matches no request.
\<close>

definition example_session :: "Input list" where
  "example_session =
     [CallSubscribe ''chat'' ''message'' None,
      SocketMessage 2 (Some (subscription_confirmed ''i'' ''chat'' ''message''
         (SubscriptionFilters None None None None))),
      CallSubscribe ''trip'' ''itinerary'' None,
      SocketMessage 2 (Some (subscription_confirmed ''ii'' ''trip'' ''itinerary''
         (SubscriptionFilters None None None None))),
      CallUnsubscribe ''i'',
      SocketMessage 2 (Some (subscription_confirmed ''zz'' ''chat'' ''message''
         (SubscriptionFilters None None None None)))]"


fun subscribe_request :: "Effect \<Rightarrow> (string \<times> string \<times> SubscriptionFilters \<times> bool) list" where
  "subscribe_request (WsSend k (subscribe_frame x d r f i)) = [(d, r, f, i)]"
| "subscribe_request _ = []"

definition subscribe_requests :: "Effect list \<Rightarrow> (string \<times> string \<times> SubscriptionFilters \<times> bool) list" where
  "subscribe_requests es = concat (map subscribe_request es)"




definition two_subscriptions :: EventsModule where
  "two_subscriptions = run (take 4 example_session) connected_module"

definition reopened_module :: EventsModule where
  "reopened_module = run [SocketCloses 2 [], TimerFires 9, SocketOpens 11] two_subscriptions"

text \<open>
  What the caller of \<^verbatim>\<open>getSubscriptions\<close> can do to the Map object it has been given: the
  mutating methods of a JavaScript \<^verbatim>\<open>Map\<close>, applied to the object at a reference of the
  heap. A session interleaves such operations with the inputs of the module.
\<close>

datatype MapOp = MapSet string SubscriptionData | MapDelete string | MapClear

fun apply_op :: "MapOp \<Rightarrow> table \<Rightarrow> table" where
  "apply_op (MapSet key v) t = AList.update key v t"
| "apply_op (MapDelete key) t = AList.delete key t"
| "apply_op MapClear t = []"

definition mutate :: "nat \<Rightarrow> MapOp \<Rightarrow> EventsModule \<Rightarrow> EventsModule" where
  "mutate r op s = s\<lparr>maps := (maps s)(r := apply_op op (maps s r))\<rparr>"

datatype Action = Module Input | Caller MapOp

fun perform :: "nat \<Rightarrow> Action \<Rightarrow> EventsModule \<Rightarrow> EventsModule" where
  "perform r (Module i) s = step i s"
| "perform r (Caller op) s = mutate r op s"

definition session :: "nat \<Rightarrow> Action list \<Rightarrow> EventsModule \<Rightarrow> EventsModule" where
  "session r actions s = foldl (\<lambda>s' a. perform r a s') s actions"

fun module_inputs :: "Action list \<Rightarrow> Input list" where
  "module_inputs [] = []"
| "module_inputs (Module i # actions) = i # module_inputs actions"
| "module_inputs (Caller op # actions) = module_inputs actions"

text \<open>
  The state \<open>s\<close> with the Map object at \<open>r\<close> holding \<open>tb\<close>; an object is foreign when it
  has been allocated and is not the module's own table.
\<close>

definition with_map :: "nat \<Rightarrow> table \<Rightarrow> EventsModule \<Rightarrow> EventsModule" where
  "with_map r tb s = s\<lparr>maps := (maps s)(r := tb)\<rparr>"

definition foreign :: "nat \<Rightarrow> EventsModule \<Rightarrow> bool" where
  "foreign r s \<longleftrightarrow> r \<noteq> subscriptions s \<and> r < fresh s"

text \<open>
  \<open>grows s s'\<close>: the module still holds the same table object, and no handle has been
  given back.
\<close>

definition grows :: "EventsModule \<Rightarrow> EventsModule \<Rightarrow> bool" where
  "grows s s' \<longleftrightarrow> subscriptions s' = subscriptions s \<and> fresh s \<le> fresh s'"

text \<open>
  Requests and their promises. A promise is settled once it is allocated and no longer
  pending. A subscribe request is pending under its identifier while its entry is in the
  pending table and its promise has not been settled. The calls of the \<^verbatim>\<open>resolve\<close> and
  \<^verbatim>\<open>reject\<close> functions of a promise are read off the effect log.
\<close>

definition settled :: "nat \<Rightarrow> PromiseState \<Rightarrow> EventsModule \<Rightarrow> bool" where
  "settled p v s \<longleftrightarrow> p < fresh s \<and> promises s p = v \<and> v \<noteq> Pending"

definition pending_subscribe :: "string \<Rightarrow> nat \<Rightarrow> EventsModule \<Rightarrow> bool" where
  "pending_subscribe x p s \<longleftrightarrow>
     map_option pd_promise (map_of (pendingSubscriptions s) x) = Some p \<and>
     promises s p = Pending \<and> p < fresh s"

fun settlement :: "nat \<Rightarrow> Effect \<Rightarrow> bool" where
  "settlement p (Resolve q v) = (q = p)"
| "settlement p (Reject q e) = (q = p)"
| "settlement p _ = False"

definition settle_calls :: "nat \<Rightarrow> Effect list \<Rightarrow> Effect list" where
  "settle_calls p es = filter (settlement p) es"


text \<open>
  The connected example module after its socket was lost, \<^verbatim>\<open>connect()\<close> was called by
  hand, and the socket of that call was lost too.
\<close>

definition twice_lost_module :: EventsModule where
  "twice_lost_module = run [SocketCloses 2 [], CallConnect, SocketCloses 7 []] connected_module"

section \<open>Basic facts\<close>

lemma listener_trace_simps [simp]:
  "listener_trace ev arg [] = []"
  "listener_trace ev arg (cb # cbs) = listener_effects ev arg cb @ listener_trace ev arg cbs"
  "listener_trace ev arg (cbs @ cbs') = listener_trace ev arg cbs @ listener_trace ev arg cbs'"
  by (simp_all add: listener_trace_def)

lemma guarded_call_eq:
  "guarded_call ev arg cb s =
     (None, s\<lparr>effects := effects s @ listener_effects ev arg cb\<rparr>)"
  by (cases "cb_body cb arg")
     (simp_all add: guarded_call_def call_listener_def eff_def listener_effects_def)

lemma forEach_never_throws:
  assumes "\<And>x s. f x s = (None, s\<lparr>effects := effects s @ g x\<rparr>)"
  shows "forEach f xs s = (None, s\<lparr>effects := effects s @ concat (map g xs)\<rparr>)"
proof (induction xs arbitrary: s)
  case Nil
  show ?case by simp
next
  case (Cons x xs)
  have "forEach f (x # xs) s = forEach f xs (s\<lparr>effects := effects s @ g x\<rparr>)"
    by (simp add: assms)
  also have "\<dots> = (None, s\<lparr>effects := effects s @ concat (map g (x # xs))\<rparr>)"
    by (simp add: Cons.IH)
  finally show ?case .
qed

lemma forEach_guarded:
  "forEach (guarded_call ev arg) cbs s = (None, s\<lparr>effects := effects s @ listener_trace ev arg cbs\<rparr>)"
  unfolding listener_trace_def by (rule forEach_never_throws) (rule guarded_call_eq)

lemma emit_outcome_eq:
  "emit_outcome ev arg s = (None, s\<lparr>effects := effects s @ listener_trace ev arg (registered s ev)\<rparr>)"
  by (cases "listeners s ev") (simp_all add: emit_outcome_def registered_def forEach_guarded)

lemma emit_eq:
  "emit ev arg s = s\<lparr>effects := effects s @ listener_trace ev arg (registered s ev)\<rparr>"
  by (simp add: emit_def emit_outcome_eq)

lemma reconnect_delays_simps [simp]:
  "reconnect_delays [] = []"
  "reconnect_delays (xs @ ys) = reconnect_delays xs @ reconnect_delays ys"
  "reconnect_delays (e # es) = reconnect_delay e @ reconnect_delays es"
  by (simp_all add: reconnect_delays_def)

lemma reconnect_delays_listener_trace [simp]:
  "reconnect_delays (listener_trace ev arg cbs) = []"
  by (induction cbs) (auto simp: listener_effects_def split: option.splits)

lemma scheduleReconnect_below:
  assumes "int (reconnectAttempts s) < maxReconnectAttempts (config s)"
  shows "scheduleReconnect s =
    s\<lparr>reconnectAttempts := Suc (reconnectAttempts s),
      effects := effects s @ listener_trace ev_reconnecting (ArgNumber (Suc (reconnectAttempts s))) (registered s ev_reconnecting)
          @ [SetTimeout (fresh s) ReconnectTask (backoff (config s) (Suc (reconnectAttempts s)))],
      timers := (timers s)(fresh s \<mapsto> ReconnectTask),
      fresh := Suc (fresh s),
      reconnectTimeoutId := Some (fresh s)\<rparr>"
  using assms
  by (simp add: scheduleReconnect_def Let_def emit_eq setTimeout_def eff_def backoff_def registered_def)

lemma scheduleReconnect_max:
  assumes "int (reconnectAttempts s) \<ge> maxReconnectAttempts (config s)"
  shows "scheduleReconnect s =
    s\<lparr>effects := effects s @ listener_trace ev_error (ArgError (Error ''Max reconnect attempts reached'')) (registered s ev_error)\<rparr>"
  using assms
  by (simp add: scheduleReconnect_def Let_def emit_eq)

lemma backoff_mono: "0 \<le> reconnectDelay cfg \<Longrightarrow> backoff cfg n \<le> backoff cfg (Suc n)"
proof (cases n)
  case 0
  then show ?thesis by (simp add: backoff_def)
next
  case (Suc m)
  assume d: "0 \<le> reconnectDelay cfg"
  have "reconnectDelay cfg * 2 ^ m \<le> reconnectDelay cfg * 2 ^ Suc m"
    using d by (intro mult_left_mono) simp_all
  then show ?thesis using Suc by (simp add: backoff_def min_def)
qed

lemma invoked_listener_trace: "invoked (listener_trace ev arg cbs) = map cb_id cbs"
  by (induction cbs) (auto simp: invoked_def listener_effects_def split: option.splits)

lemma logged_listener_trace: "logged (listener_trace ev arg cbs) = thrown arg cbs"
  by (induction cbs) (auto simp: logged_def thrown_def listener_effects_def split: option.splits)

lemma error_events_simps [simp]:
  "error_events [] = []"
  "error_events (xs @ ys) = error_events xs @ error_events ys"
  "error_events (e # es) = error_event e @ error_events es"
  by (simp_all add: error_events_def)

lemma sent_frames_simps [simp]:
  "sent_frames [] = []"
  "sent_frames (xs @ ys) = sent_frames xs @ sent_frames ys"
  "sent_frames (e # es) = sent_frame e @ sent_frames es"
  by (simp_all add: sent_frames_def)

lemma sent_frames_listener_trace [simp]: "sent_frames (listener_trace ev arg cbs) = []"
  by (induction cbs) (auto simp: listener_effects_def split: option.splits)

lemma rejects_silent:
  assumes "list_all is_reject es"
  shows "reconnect_delays es = [] \<and> error_events es = [] \<and> sent_frames es = []"
  using assms
proof (induction es)
  case Nil
  show ?case by simp
next
  case (Cons e es)
  then show ?case by (cases e) simp_all
qed

lemma quietI:
  assumes "s' = s\<lparr>promises := promises s', fresh := fresh s', awaiting := awaiting s',
                   effects := effects s @ es\<rparr>"
    and "list_all is_reject es" and "fresh s \<le> fresh s'"
    and "\<And>p. p < fresh s \<Longrightarrow> promises s' p = promises s p"
  shows "quiet s s'"
  unfolding quiet_def using assms by blast

lemma quiet_refl: "quiet s s"
  by (rule quietI[of _ _ "[]"]) simp_all

lemma quiet_old_promises: "quiet s s' \<Longrightarrow> p < fresh s \<Longrightarrow> promises s' p = promises s p"
  by (simp add: quiet_def)

lemma quiet_fresh: "quiet s s' \<Longrightarrow> fresh s \<le> fresh s'"
  by (simp add: quiet_def)

lemma quiet_trans:
  assumes "quiet s t" "quiet t u"
  shows "quiet s u"
proof -
  from assms obtain es es' where
    t: "t = s\<lparr>promises := promises t, fresh := fresh t, awaiting := awaiting t, effects := effects s @ es\<rparr>"
    and u: "u = t\<lparr>promises := promises u, fresh := fresh u, awaiting := awaiting u, effects := effects t @ es'\<rparr>"
    and r: "list_all is_reject es" "list_all is_reject es'"
    unfolding quiet_def by blast
  have "effects t = effects s @ es" by (subst t) simp
  then have eq: "u = s\<lparr>promises := promises u, fresh := fresh u, awaiting := awaiting u, effects := effects s @ (es @ es')\<rparr>"
    by (subst u, subst t) simp
  show ?thesis
  proof (rule quietI[OF eq])
    show "list_all is_reject (es @ es')" using r by simp
    show "fresh s \<le> fresh u" using quiet_fresh[OF assms(1)] quiet_fresh[OF assms(2)] by simp
    fix p assume "p < fresh s"
    then show "promises u p = promises s p"
      using quiet_old_promises[OF assms(1)] quiet_old_promises[OF assms(2), of p] quiet_fresh[OF assms(1)]
      by simp
  qed
qed

lemma subscribe_not_open_eq:
  assumes "\<not> ws_open s"
  shows "subscribe d r opts s =
    (fresh s, s\<lparr>promises := (promises s)(fresh s := Rejected (Error ''Not connected'')),
                 fresh := Suc (fresh s),
                 effects := effects s @ [Reject (fresh s) (Error ''Not connected'')]\<rparr>)"
  using assms
  by (simp add: subscribe_def ws_open_def ready_def new_promise_def reject_def settle_def eff_def Let_def
      split: option.splits)

lemma subscribe_not_open:
  assumes "\<not> ws_open s"
  shows "quiet s (snd (subscribe d r opts s))"
    and "promises (snd (subscribe d r opts s)) (fst (subscribe d r opts s)) \<noteq> Pending"
proof -
  show "quiet s (snd (subscribe d r opts s))"
    unfolding subscribe_not_open_eq[OF assms]
    by (rule quietI[of _ _ "[Reject (fresh s) (Error ''Not connected'')]"]) simp_all
  show "promises (snd (subscribe d r opts s)) (fst (subscribe d r opts s)) \<noteq> Pending"
    unfolding subscribe_not_open_eq[OF assms] by simp
qed

lemma quiet_fields:
  assumes "quiet s s'"
  shows "config s' = config s" "ws s' = ws s" "sockets s' = sockets s"
    "reconnectAttempts s' = reconnectAttempts s" "reconnectTimeoutId s' = reconnectTimeoutId s"
    "isManualDisconnect s' = isManualDisconnect s" "isConnecting s' = isConnecting s"
    "listeners s' = listeners s" "timers s' = timers s" "ctorThrows s' = ctorThrows s"
    "bearerToken s' = bearerToken s" "pingIntervalId s' = pingIntervalId s"
    "authResolve s' = authResolve s" "authReject s' = authReject s"
    "pendingSubscriptions s' = pendingSubscriptions s" "maps s' = maps s"
    "subscriptions s' = subscriptions s" "idStream s' = idStream s" "userId s' = userId s"
    "reconnect_delays (effects s') = reconnect_delays (effects s)"
    "error_events (effects s') = error_events (effects s)"
    "sent_frames (effects s') = sent_frames (effects s)"
proof -
  from assms obtain es where
    eq: "s' = s\<lparr>promises := promises s', fresh := fresh s', awaiting := awaiting s',
                  effects := effects s @ es\<rparr>" and r: "list_all is_reject es"
    unfolding quiet_def by blast
  show "config s' = config s" by (subst eq) simp
  show "ws s' = ws s" by (subst eq) simp
  show "sockets s' = sockets s" by (subst eq) simp
  show "reconnectAttempts s' = reconnectAttempts s" by (subst eq) simp
  show "reconnectTimeoutId s' = reconnectTimeoutId s" by (subst eq) simp
  show "isManualDisconnect s' = isManualDisconnect s" by (subst eq) simp
  show "isConnecting s' = isConnecting s" by (subst eq) simp
  show "listeners s' = listeners s" by (subst eq) simp
  show "timers s' = timers s" by (subst eq) simp
  show "ctorThrows s' = ctorThrows s" by (subst eq) simp
  show "bearerToken s' = bearerToken s" by (subst eq) simp
  show "pingIntervalId s' = pingIntervalId s" by (subst eq) simp
  show "authResolve s' = authResolve s" by (subst eq) simp
  show "authReject s' = authReject s" by (subst eq) simp
  show "pendingSubscriptions s' = pendingSubscriptions s" by (subst eq) simp
  show "maps s' = maps s" by (subst eq) simp
  show "subscriptions s' = subscriptions s" by (subst eq) simp
  show "idStream s' = idStream s" by (subst eq) simp
  show "userId s' = userId s" by (subst eq) simp
  have e: "effects s' = effects s @ es" by (subst eq) simp
  show "reconnect_delays (effects s') = reconnect_delays (effects s)"
    by (simp add: e rejects_silent[OF r])
  show "error_events (effects s') = error_events (effects s)"
    by (simp add: e rejects_silent[OF r])
  show "sent_frames (effects s') = sent_frames (effects s)"
    by (simp add: e rejects_silent[OF r])
qed

lemma quiet_ready: "quiet s s' \<Longrightarrow> ready s' = ready s"
  by (rule ext) (simp add: ready_def quiet_fields)

lemma quiet_ws_open: "quiet s s' \<Longrightarrow> ws_open s' = ws_open s"
  by (simp add: ws_open_def quiet_ready quiet_fields split: option.splits)

lemma quiet_awaiting:
  assumes "quiet s s'"
  shows "quiet s (s'\<lparr>awaiting := aw\<rparr>)"
proof -
  from assms obtain es where
    eq: "s' = s\<lparr>promises := promises s', fresh := fresh s', awaiting := awaiting s', effects := effects s @ es\<rparr>"
    and r: "list_all is_reject es"
    unfolding quiet_def by blast
  have "s'\<lparr>awaiting := aw\<rparr> = s\<lparr>promises := promises s', fresh := fresh s', awaiting := aw, effects := effects s @ es\<rparr>"
    by (subst eq) simp
  then have eq': "s'\<lparr>awaiting := aw\<rparr> =
         s\<lparr>promises := promises (s'\<lparr>awaiting := aw\<rparr>), fresh := fresh (s'\<lparr>awaiting := aw\<rparr>),
             awaiting := awaiting (s'\<lparr>awaiting := aw\<rparr>), effects := effects s @ es\<rparr>"
    by simp
  show ?thesis
    by (rule quietI[OF eq' r]) (use quiet_fresh[OF assms] quiet_old_promises[OF assms] in simp_all)
qed

lemma run_microtasks_idle:
  assumes "list_all (\<lambda>(p, rest). promises s p = Pending) (awaiting s)"
  shows "run_microtasks s = s"
proof -
  have "filter (\<lambda>(p, rest). promises s p \<noteq> Pending) (awaiting s) = []"
    using assms by (auto simp: list_all_iff filter_empty_conv)
  moreover have "filter (\<lambda>(p, rest). promises s p = Pending) (awaiting s) = awaiting s"
    using assms by (auto simp: list_all_iff intro: filter_True)
  ultimately show ?thesis by (simp add: run_microtasks_def)
qed

lemma resubscribe_loop_not_open:
  "\<not> ws_open s \<Longrightarrow> quiet s (resubscribe_loop ds s)"
proof (induction ds arbitrary: s)
  case Nil
  show ?case by (simp add: quiet_refl)
next
  case (Cons d ds)
  let ?t = "snd (subscribe (sd_domain d) (sd_resource d) (sd_options d) s)"
  have q: "quiet s ?t" and np: "promises ?t (fst (subscribe (sd_domain d) (sd_resource d) (sd_options d) s)) \<noteq> Pending"
    using subscribe_not_open[OF Cons.prems] by blast+
  have "\<not> ws_open ?t" using quiet_ws_open[OF q] Cons.prems by simp
  then have "quiet ?t (resubscribe_loop ds ?t)" by (rule Cons.IH)
  with q have "quiet s (resubscribe_loop ds ?t)" by (rule quiet_trans)
  moreover have "resubscribe_loop (d # ds) s = resubscribe_loop ds ?t"
    using np by (simp add: case_prod_unfold)
  ultimately show ?case by simp
qed

lemma foldl_resume_not_open:
  "\<not> ws_open s \<Longrightarrow> quiet s (foldl (\<lambda>s' (p, rest). resubscribe_loop rest s') s rs)"
proof (induction rs arbitrary: s)
  case Nil
  show ?case by (simp add: quiet_refl)
next
  case (Cons x rs)
  obtain p rest where x: "x = (p, rest)" by (cases x)
  have q: "quiet s (resubscribe_loop rest s)" using Cons.prems by (rule resubscribe_loop_not_open)
  then have "\<not> ws_open (resubscribe_loop rest s)" using Cons.prems by (simp add: quiet_ws_open)
  then have "quiet (resubscribe_loop rest s) (foldl (\<lambda>s' (p, rest). resubscribe_loop rest s') (resubscribe_loop rest s) rs)"
    by (rule Cons.IH)
  with q show ?case unfolding x by (simp add: quiet_trans)
qed

lemma run_microtasks_not_open:
  assumes "\<not> ws_open s"
  shows "quiet s (run_microtasks s)"
proof -
  let ?s1 = "s\<lparr>awaiting := filter (\<lambda>(p, rest). promises s p = Pending) (awaiting s)\<rparr>"
  have q1: "quiet s ?s1" using quiet_awaiting[OF quiet_refl] .
  then have "\<not> ws_open ?s1" using assms by (simp add: quiet_ws_open)
  then have "quiet ?s1 (foldl (\<lambda>s' (p, rest). resubscribe_loop rest s') ?s1
      (filter (\<lambda>(p, rest). promises s p \<noteq> Pending) (awaiting s)))"
    by (rule foldl_resume_not_open)
  with q1 show ?thesis unfolding run_microtasks_def Let_def by (rule quiet_trans)
qed

lemma error_event_other: "ev \<noteq> ev_error \<Longrightarrow> error_event (Invoke l ev arg) = []"
  by (cases ev; cases arg) simp_all

lemma error_events_listener_trace_other [simp]:
  "ev \<noteq> ev_error \<Longrightarrow> error_events (listener_trace ev arg cbs) = []"
  by (induction cbs) (auto simp: listener_effects_def error_event_other split: option.splits)

lemma error_events_listener_trace_error [simp]:
  "error_events (listener_trace ev_error (ArgError e) cbs) = map (\<lambda>cb. (cb_id cb, e)) cbs"
  by (induction cbs) (auto simp: listener_effects_def split: option.splits)

text \<open>The state in which onclose decides about reconnection.\<close>

lemma onclose_before_decision:
  assumes k: "sockets s k = Some sock"
  shows "\<exists>s3.
    onclose k r s = (if \<not> isManualDisconnect s \<and> autoReconnect (config s) then scheduleReconnect s3 else s3) \<and>
    config s3 = config s \<and> listeners s3 = listeners s \<and> isManualDisconnect s3 = isManualDisconnect s \<and>
    ctorThrows s3 = ctorThrows s \<and> ws s3 = ws s \<and> sockets s3 = sockets s \<and>
    reconnectAttempts s3 = reconnectAttempts s \<and> awaiting s3 = awaiting s \<and>
    bearerToken s3 = bearerToken s \<and> isConnecting s3 = False \<and>
    reconnect_delays (effects s3) = reconnect_delays (effects s) \<and>
    error_events (effects s3) = error_events (effects s) \<and>
    sent_frames (effects s3) = sent_frames (effects s)"
proof -
  define s1 where "s1 = (stopPingInterval (clearTimer (connectionTimeout sock) s))\<lparr>isConnecting := False\<rparr>"
  define s2 where "s2 = (case authReject s1 of None \<Rightarrow> s1
      | Some p \<Rightarrow> (reject p (Error (or_else r ''Connection closed before authentication'')) s1)
                     \<lparr>authResolve := None, authReject := None\<rparr>)"
  define s3 where "s3 = emit ev_disconnect (ArgString (or_else r ''Connection closed'')) s2"
  have f1: "config s1 = config s" "listeners s1 = listeners s" "isManualDisconnect s1 = isManualDisconnect s"
    "ctorThrows s1 = ctorThrows s" "ws s1 = ws s" "sockets s1 = sockets s"
    "reconnectAttempts s1 = reconnectAttempts s" "awaiting s1 = awaiting s"
    "bearerToken s1 = bearerToken s" "isConnecting s1 = False"
    "reconnect_delays (effects s1) = reconnect_delays (effects s)"
    "error_events (effects s1) = error_events (effects s)"
    "sent_frames (effects s1) = sent_frames (effects s)"
    by (simp_all add: s1_def stopPingInterval_def clearTimer_def eff_def split: option.splits)
  have f2: "config s2 = config s1" "listeners s2 = listeners s1" "isManualDisconnect s2 = isManualDisconnect s1"
    "ctorThrows s2 = ctorThrows s1" "ws s2 = ws s1" "sockets s2 = sockets s1"
    "reconnectAttempts s2 = reconnectAttempts s1" "awaiting s2 = awaiting s1"
    "bearerToken s2 = bearerToken s1" "isConnecting s2 = isConnecting s1"
    "reconnect_delays (effects s2) = reconnect_delays (effects s1)"
    "error_events (effects s2) = error_events (effects s1)"
    "sent_frames (effects s2) = sent_frames (effects s1)"
    by (simp_all add: s2_def reject_def settle_def eff_def split: option.splits)
  have f3: "config s3 = config s2" "listeners s3 = listeners s2" "isManualDisconnect s3 = isManualDisconnect s2"
    "ctorThrows s3 = ctorThrows s2" "ws s3 = ws s2" "sockets s3 = sockets s2"
    "reconnectAttempts s3 = reconnectAttempts s2" "awaiting s3 = awaiting s2"
    "bearerToken s3 = bearerToken s2" "isConnecting s3 = isConnecting s2"
    "reconnect_delays (effects s3) = reconnect_delays (effects s2)"
    "error_events (effects s3) = error_events (effects s2)"
    "sent_frames (effects s3) = sent_frames (effects s2)"
    by (simp_all add: s3_def emit_eq)
  have "onclose k r s = (if \<not> isManualDisconnect s3 \<and> autoReconnect (config s3) then scheduleReconnect s3 else s3)"
    unfolding onclose_def s3_def s2_def s1_def Let_def by (simp only: k option.case)
  then show ?thesis
    using f1 f2 f3 by (intro exI[of _ s3]) simp
qed

lemma set_ready_fields:
  "config (set_ready k r s) = config s" "listeners (set_ready k r s) = listeners s"
  "isManualDisconnect (set_ready k r s) = isManualDisconnect s"
  "ctorThrows (set_ready k r s) = ctorThrows s" "ws (set_ready k r s) = ws s"
  "reconnectAttempts (set_ready k r s) = reconnectAttempts s"
  "effects (set_ready k r s) = effects s" "awaiting (set_ready k r s) = awaiting s"
  "timers (set_ready k r s) = timers s" "bearerToken (set_ready k r s) = bearerToken s"
  "fresh (set_ready k r s) = fresh s" "promises (set_ready k r s) = promises s"
  "maps (set_ready k r s) = maps s" "subscriptions (set_ready k r s) = subscriptions s"
  "pendingSubscriptions (set_ready k r s) = pendingSubscriptions s"
  "authResolve (set_ready k r s) = authResolve s" "authReject (set_ready k r s) = authReject s"
  "reconnectTimeoutId (set_ready k r s) = reconnectTimeoutId s"
  "pingIntervalId (set_ready k r s) = pingIntervalId s" "isConnecting (set_ready k r s) = isConnecting s"
  "idStream (set_ready k r s) = idStream s" "userId (set_ready k r s) = userId s"
  by (simp_all add: set_ready_def split: option.splits)

lemma set_ready_sockets:
  "sockets s k = Some sock \<Longrightarrow>
   sockets (set_ready k r s) = (sockets s)(k \<mapsto> Socket r (connectionTimeout sock) (connectPromise sock))"
  by (simp add: set_ready_def)

lemma ready_set_ready: "sockets s k \<noteq> None \<Longrightarrow> ready (set_ready k r s) k = r"
  by (auto simp: ready_def set_ready_def)

lemma socket_lost_step:
  fixes r :: string and s :: EventsModule
  assumes I: "retrying s"
  defines "t \<equiv> socket_lost r s"
  shows "config t = config s \<and> listeners t = listeners s \<and> retrying t \<and> \<not> ws_open t \<and>
    \<not> isConnecting t \<and>
    (if int (reconnectAttempts s) < maxReconnectAttempts (config s)
     then reconnectAttempts t = Suc (reconnectAttempts s) \<and>
          (case reconnectTimeoutId t of None \<Rightarrow> False | Some h \<Rightarrow> timers t h = Some ReconnectTask) \<and>
          reconnect_delays (effects t) =
            reconnect_delays (effects s) @ [backoff (config s) (Suc (reconnectAttempts s))] \<and>
          error_events (effects t) = error_events (effects s)
     else reconnectAttempts t = reconnectAttempts s \<and>
          reconnect_delays (effects t) = reconnect_delays (effects s) \<and>
          error_events (effects t) = error_events (effects s) @ max_errors s)"
proof -
  from I obtain k sock where k: "ws s = Some k" "sockets s k = Some sock"
    and c: "autoReconnect (config s)" "\<not> isManualDisconnect s" "ctorThrows s = None"
    by (auto simp: retrying_def split: option.splits)
  define s0 where "s0 = set_ready k CLOSED s"
  have k0: "sockets s0 k = Some (Socket CLOSED (connectionTimeout sock) (connectPromise sock))"
    by (simp add: s0_def set_ready_sockets[OF k(2)])
  from onclose_before_decision[OF k0, of r] obtain s3 where s3':
    "onclose k r s0 = (if \<not> isManualDisconnect s0 \<and> autoReconnect (config s0) then scheduleReconnect s3 else s3) \<and>
    config s3 = config s0 \<and> listeners s3 = listeners s0 \<and> isManualDisconnect s3 = isManualDisconnect s0 \<and>
    ctorThrows s3 = ctorThrows s0 \<and> ws s3 = ws s0 \<and> sockets s3 = sockets s0 \<and>
    reconnectAttempts s3 = reconnectAttempts s0 \<and> awaiting s3 = awaiting s0 \<and>
    bearerToken s3 = bearerToken s0 \<and> isConnecting s3 = False \<and>
    reconnect_delays (effects s3) = reconnect_delays (effects s0) \<and>
    error_events (effects s3) = error_events (effects s0) \<and>
    sent_frames (effects s3) = sent_frames (effects s0)" ..
  then have s3:
    "onclose k r s0 = (if \<not> isManualDisconnect s0 \<and> autoReconnect (config s0) then scheduleReconnect s3 else s3)"
    "config s3 = config s0" "listeners s3 = listeners s0" "isManualDisconnect s3 = isManualDisconnect s0"
    "ctorThrows s3 = ctorThrows s0" "ws s3 = ws s0" "sockets s3 = sockets s0"
    "reconnectAttempts s3 = reconnectAttempts s0" "isConnecting s3 = False"
    "reconnect_delays (effects s3) = reconnect_delays (effects s0)"
    "error_events (effects s3) = error_events (effects s0)"
    by blast+
  define u where "u = onclose k r s0"
  have u: "u = scheduleReconnect s3"
    using s3(1) c by (simp add: u_def s0_def set_ready_fields)
  have s3s: "config s3 = config s" "listeners s3 = listeners s" "\<not> isManualDisconnect s3"
    "ctorThrows s3 = None" "ws s3 = Some k" "sockets s3 k \<noteq> None" "ready s3 k = CLOSED"
    "reconnectAttempts s3 = reconnectAttempts s" "\<not> isConnecting s3"
    "reconnect_delays (effects s3) = reconnect_delays (effects s)"
    "error_events (effects s3) = error_events (effects s)"
    using s3 c k k0 by (simp_all add: s0_def set_ready_fields ready_def)
  have t: "t = run_microtasks u"
    by (simp add: t_def socket_lost_def k step_def u_def s0_def)
  have reg: "registered s3 ev_error = registered s ev_error"
    by (simp add: registered_def s3s)
  show ?thesis
  proof (cases "int (reconnectAttempts s) < maxReconnectAttempts (config s)")
    case True
    then have b: "int (reconnectAttempts s3) < maxReconnectAttempts (config s3)" by (simp add: s3s)
    note eq = scheduleReconnect_below[OF b]
    have uf: "config u = config s" "listeners u = listeners s" "\<not> isManualDisconnect u"
      "ctorThrows u = None" "ws u = Some k" "sockets u k \<noteq> None" "ready u k = CLOSED"
      "reconnectAttempts u = Suc (reconnectAttempts s)" "\<not> isConnecting u"
      "reconnectTimeoutId u = Some (fresh s3)" "timers u (fresh s3) = Some ReconnectTask"
      "reconnect_delays (effects u) = reconnect_delays (effects s) @ [backoff (config s) (Suc (reconnectAttempts s))]"
      "error_events (effects u) = error_events (effects s)"
      unfolding u eq using s3s by (simp_all add: ready_def)
    have no: "\<not> ws_open u" by (simp add: ws_open_def uf)
    have q: "quiet u t" unfolding t using no by (rule run_microtasks_not_open)
    show ?thesis
      using True uf c no
      by (simp add: quiet_fields[OF q] quiet_ws_open[OF q] retrying_def)
  next
    case False
    then have b: "int (reconnectAttempts s3) \<ge> maxReconnectAttempts (config s3)" by (simp add: s3s)
    note eq = scheduleReconnect_max[OF b]
    have uf: "config u = config s" "listeners u = listeners s" "\<not> isManualDisconnect u"
      "ctorThrows u = None" "ws u = Some k" "sockets u k \<noteq> None" "ready u k = CLOSED"
      "reconnectAttempts u = reconnectAttempts s" "\<not> isConnecting u"
      "reconnect_delays (effects u) = reconnect_delays (effects s)"
      "error_events (effects u) = error_events (effects s) @ max_errors s"
      unfolding u eq using s3s by (simp_all add: ready_def max_errors_def reg)
    have no: "\<not> ws_open u" by (simp add: ws_open_def uf)
    have q: "quiet u t" unfolding t using no by (rule run_microtasks_not_open)
    show ?thesis
      using False uf c no
      by (simp add: quiet_fields[OF q] quiet_ws_open[OF q] retrying_def)
  qed
qed

lemma private_connect_ok:
  assumes "ctorThrows s = None"
  shows "private_connect s =
    (fresh s,
     s\<lparr>promises := (promises s)(fresh s := Pending),
       authResolve := Some (fresh s), authReject := Some (fresh s),
       sockets := (sockets s)(Suc (fresh s) \<mapsto> Socket CONNECTING (Suc (Suc (fresh s))) (fresh s)),
       ws := Some (Suc (fresh s)),
       timers := (timers s)(Suc (Suc (fresh s)) \<mapsto> ConnectionTimeoutTask (Suc (fresh s))),
       fresh := Suc (Suc (Suc (fresh s))),
       effects := effects s @ [NewWebSocket (Suc (fresh s)),
          SetTimeout (Suc (Suc (fresh s))) (ConnectionTimeoutTask (Suc (fresh s))) 10000]\<rparr>)"
  using assms
  by (simp add: private_connect_def new_promise_def setTimeout_def eff_def Let_def)

lemma retry_fires_step:
  assumes I: "retrying t"
  defines "u \<equiv> retry_fires t"
  shows "config u = config t \<and> listeners u = listeners t \<and> retrying u \<and>
    (\<not> ws_open t \<longrightarrow> \<not> ws_open u) \<and> isConnecting u = isConnecting t \<and>
    reconnectAttempts u = reconnectAttempts t \<and>
    reconnect_delays (effects u) = reconnect_delays (effects t) \<and>
    error_events (effects u) = error_events (effects t)"
proof (cases "case reconnectTimeoutId t of None \<Rightarrow> False | Some h \<Rightarrow> timers t h = Some ReconnectTask")
  case False
  then have "u = t" by (auto simp: u_def retry_fires_def split: option.splits)
  then show ?thesis using I by simp
next
  case True
  then obtain h where h: "reconnectTimeoutId t = Some h" "timers t h = Some ReconnectTask"
    by (auto split: option.splits)
  define t' where "t' = t\<lparr>timers := (timers t)(h := None)\<rparr>"
  define v where "v = snd (private_connect t')"
  have c: "ctorThrows t' = None" using I by (simp add: retrying_def t'_def)
  have u: "u = run_microtasks v"
    by (simp add: u_def retry_fires_def h step_def fire_def reconnectFired_def v_def t'_def)
  have vf: "config v = config t" "listeners v = listeners t" "isManualDisconnect v = isManualDisconnect t"
    "ctorThrows v = None" "ws v = Some (Suc (fresh t))" "sockets v (Suc (fresh t)) \<noteq> None"
    "ready v (Suc (fresh t)) = CONNECTING"
    "reconnectAttempts v = reconnectAttempts t" "isConnecting v = isConnecting t"
    "reconnect_delays (effects v) = reconnect_delays (effects t)"
    "error_events (effects v) = error_events (effects t)"
    unfolding v_def private_connect_ok[OF c] using I
    by (simp_all add: t'_def ready_def retrying_def)
  have no: "\<not> ws_open v" by (simp add: ws_open_def vf)
  have q: "quiet v u" unfolding u using no by (rule run_microtasks_not_open)
  show ?thesis
    using vf I no by (simp add: quiet_fields[OF q] quiet_ws_open[OF q] retrying_def)
qed

lemma cycle_step:
  fixes r :: string
  assumes I: "retrying s"
  defines "u \<equiv> retry_fires (socket_lost r s)"
  shows "config u = config s \<and> listeners u = listeners s \<and> retrying u \<and>
    \<not> ws_open u \<and> \<not> isConnecting u \<and>
    (if int (reconnectAttempts s) < maxReconnectAttempts (config s)
     then reconnectAttempts u = Suc (reconnectAttempts s) \<and>
          reconnect_delays (effects u) =
            reconnect_delays (effects s) @ [backoff (config s) (Suc (reconnectAttempts s))] \<and>
          error_events (effects u) = error_events (effects s)
     else reconnectAttempts u = reconnectAttempts s \<and>
          reconnect_delays (effects u) = reconnect_delays (effects s) \<and>
          error_events (effects u) = error_events (effects s) @ max_errors s)"
proof -
  note a = socket_lost_step[OF I, of r]
  then have "retrying (socket_lost r s)" by simp
  note b = retry_fires_step[OF this]
  show ?thesis using a b unfolding u_def by (simp split: if_splits)
qed

lemma max_errors_cong: "listeners u = listeners s \<Longrightarrow> max_errors u = max_errors s"
  by (simp add: max_errors_def registered_def)

lemma outage_run:
  assumes "retrying s" "maxReconnectAttempts (config s) = int N" "reconnectAttempts s \<le> N"
  shows "retrying (outage rs s) \<and> config (outage rs s) = config s \<and> listeners (outage rs s) = listeners s \<and>
    reconnectAttempts (outage rs s) = min (reconnectAttempts s + length rs) N \<and>
    reconnect_delays (effects (outage rs s)) =
      reconnect_delays (effects s) @
      map (backoff (config s)) [Suc (reconnectAttempts s) ..< Suc (min (reconnectAttempts s + length rs) N)] \<and>
    error_events (effects (outage rs s)) =
      error_events (effects s) @
      concat (replicate (reconnectAttempts s + length rs - N) (max_errors s))"
  using assms
proof (induction rs arbitrary: s)
  case Nil
  then show ?case by (simp del: upt_Suc)
next
  case (Cons r rs)
  define u where "u = retry_fires (socket_lost r s)"
  note st = cycle_step[OF Cons.prems(1), of r, folded u_def]
  have cu: "config u = config s" "listeners u = listeners s" "retrying u" using st by simp_all
  show ?case
  proof (cases "reconnectAttempts s < N")
    case True
    then have lt: "int (reconnectAttempts s) < maxReconnectAttempts (config s)"
      using Cons.prems by simp
    have su: "reconnectAttempts u = Suc (reconnectAttempts s)"
      "reconnect_delays (effects u) = reconnect_delays (effects s) @ [backoff (config s) (Suc (reconnectAttempts s))]"
      "error_events (effects u) = error_events (effects s)"
      using st lt by simp_all
    have "reconnectAttempts u \<le> N" using su True by simp
    note ih = Cons.IH[OF cu(3) _ this, unfolded cu su]
    have up: "[Suc (reconnectAttempts s) ..< Suc (min (Suc (reconnectAttempts s + length rs)) N)] =
       Suc (reconnectAttempts s) # [Suc (Suc (reconnectAttempts s)) ..< Suc (min (Suc (reconnectAttempts s + length rs)) N)]"
      by (rule upt_conv_Cons) (use True in simp)
    show ?thesis
      using ih Cons.prems(2) by (simp add: u_def[symmetric] max_errors_cong[OF cu(2)] up del: upt_Suc)
  next
    case False
    then have eq: "reconnectAttempts s = N" using Cons.prems by simp
    then have ge: "\<not> int (reconnectAttempts s) < maxReconnectAttempts (config s)"
      using Cons.prems by simp
    have su: "reconnectAttempts u = reconnectAttempts s"
      "reconnect_delays (effects u) = reconnect_delays (effects s)"
      "error_events (effects u) = error_events (effects s) @ max_errors s"
      using st ge by simp_all
    have "reconnectAttempts u \<le> N" using su eq by simp
    note ih = Cons.IH[OF cu(3) _ this, unfolded cu su]
    show ?thesis
      using ih Cons.prems(2) eq
      by (simp add: u_def[symmetric] max_errors_cong[OF cu(2)] replicate_app_Cons_same Suc_diff_le del: upt_Suc)
  qed
qed

lemma outage_idle:
  assumes "retrying s" "rs \<noteq> [] \<or> (\<not> ws_open s \<and> \<not> isConnecting s)"
  shows "\<not> ws_open (outage rs s) \<and> \<not> isConnecting (outage rs s)"
  using assms
proof (induction rs arbitrary: s)
  case Nil
  then show ?case by simp
next
  case (Cons r rs)
  note st = cycle_step[OF Cons.prems(1), of r]
  then have "retrying (retry_fires (socket_lost r s))"
    and "\<not> ws_open (retry_fires (socket_lost r s)) \<and> \<not> isConnecting (retry_fires (socket_lost r s))"
    by simp_all
  then show ?case using Cons.IH by simp
qed

lemma connect_idle:
  assumes "\<not> ws_open t" "\<not> isConnecting t" "ctorThrows t = None"
  shows "step CallConnect t =
    run_microtasks (snd (private_connect (t\<lparr>isConnecting := True, isManualDisconnect := False, reconnectAttempts := 0\<rparr>)))"
  using assms by (simp add: step_def connect_def)

lemma manual_connect_resumes:
  assumes I: "retrying t" and idle: "\<not> ws_open t" "\<not> isConnecting t"
  defines "u \<equiv> step CallConnect t"
  shows "retrying u \<and> reconnectAttempts u = 0 \<and> config u = config t \<and>
    reconnect_delays (effects u) = reconnect_delays (effects t)"
proof -
  define t' where "t' = t\<lparr>isConnecting := True, isManualDisconnect := False, reconnectAttempts := 0\<rparr>"
  define v where "v = snd (private_connect t')"
  have c: "ctorThrows t' = None" "ctorThrows t = None" using I by (simp_all add: retrying_def t'_def)
  have u: "u = run_microtasks v"
    unfolding u_def connect_idle[OF idle c(2)] by (simp add: v_def t'_def)
  have vf: "config v = config t" "\<not> isManualDisconnect v"
    "ctorThrows v = None" "ws v = Some (Suc (fresh t))" "sockets v (Suc (fresh t)) \<noteq> None"
    "ready v (Suc (fresh t)) = CONNECTING" "reconnectAttempts v = 0"
    "reconnect_delays (effects v) = reconnect_delays (effects t)"
    unfolding v_def private_connect_ok[OF c(1)] using I
    by (simp_all add: t'_def ready_def retrying_def)
  have no: "\<not> ws_open v" by (simp add: ws_open_def vf)
  have q: "quiet v u" unfolding u using no by (rule run_microtasks_not_open)
  show ?thesis
    using vf I by (simp add: quiet_fields[OF q] retrying_def)
qed

lemma backoff_capped: "backoff cfg n \<le> maxReconnectDelay cfg"
  by (simp add: backoff_def)

lemma connected_module_retrying: "retrying connected_module"
  by (simp add: connected_module_def fresh_module_def EventsModule_new_def DEFAULT_CONFIG_def
      run_def step_def connect_def private_connect_def ws_open_def ready_def new_promise_def
      setTimeout_def eff_def Let_def set_ready_def onopen_def clearTimer_def truthy_def token_of_def
      ws_send_def onmessage_def emit_eq registered_def resolve_def settle_def startPingInterval_def
      setInterval_def run_microtasks_def retrying_def)

lemmas model_defs =
  EventsModule_new_def DEFAULT_CONFIG_def run_def step_def connect_def private_connect_def
  ws_open_def ready_def new_promise_def setTimeout_def eff_def Let_def set_ready_def onopen_def
  clearTimer_def truthy_def token_of_def ws_send_def onmessage_def emit_eq registered_def
  resolve_def reject_def settle_def startPingInterval_def stopPingInterval_def setInterval_def
  run_microtasks_def on_def off_def

lemma connected_module_fields:
  "config connected_module = DEFAULT_CONFIG"
  "reconnectAttempts connected_module = 0"
  "ws connected_module = Some 2"
  "sockets connected_module 2 = Some (Socket OPEN 3 1)"
  "listeners connected_module = Map.empty"
  "awaiting connected_module = []"
  "pendingSubscriptions connected_module = []"
  "reconnect_delays (effects connected_module) = []"
  "error_events (effects connected_module) = []"
  "sent_frames (effects connected_module) = [(2, auth ''token'')]"
  by (simp_all add: connected_module_def fresh_module_def model_defs)

lemma observed_module_fields:
  "config observed_module = DEFAULT_CONFIG"
  "reconnectAttempts observed_module = 0"
  "reconnect_delays (effects observed_module) = []"
  "error_events (effects observed_module) = []"
  "max_errors observed_module = [(7, Error ''Max reconnect attempts reached'')]"
  "retrying observed_module"
  by (simp_all add: observed_module_def connected_module_def fresh_module_def model_defs
      max_errors_def retrying_def)

lemma reject_eq:
  "reject p e s =
     s\<lparr>promises := (if promises s p = Pending then (promises s)(p := Rejected e) else promises s),
       effects := effects s @ [Reject p e]\<rparr>"
  by (simp add: reject_def settle_def eff_def)

lemma resolve_eq:
  "resolve p v s =
     s\<lparr>promises := (if promises s p = Pending then (promises s)(p := Fulfilled v) else promises s),
       effects := effects s @ [Resolve p v]\<rparr>"
  by (simp add: resolve_def settle_def eff_def)

lemma reject_overwritten:
  "(reject p e s)\<lparr>promises := X, effects := Y\<rparr> = s\<lparr>promises := X, effects := Y\<rparr>"
  by (simp add: reject_eq)

lemma reject_all_eq:
  "reject_all e pds s =
     s\<lparr>promises := (\<lambda>p. if p \<in> set (map pd_promise pds) \<and> promises s p = Pending
                          then Rejected e else promises s p),
       effects := effects s @ map (\<lambda>pd. Reject (pd_promise pd) e) pds\<rparr>"
proof (induction pds arbitrary: s)
  case Nil
  show ?case by (simp add: reject_all_def)
next
  case (Cons pd pds)
  let ?t = "reject (pd_promise pd) e s"
  have F: "(\<lambda>p. if p \<in> set (map pd_promise pds) \<and> promises ?t p = Pending
                 then Rejected e else promises ?t p) =
           (\<lambda>p. if p \<in> set (map pd_promise (pd # pds)) \<and> promises s p = Pending
                 then Rejected e else promises s p)"
    by (rule ext) (auto simp: reject_eq)
  have E: "effects ?t @ map (\<lambda>pd. Reject (pd_promise pd) e) pds =
           effects s @ map (\<lambda>pd. Reject (pd_promise pd) e) (pd # pds)"
    by (simp add: reject_eq)
  have "reject_all e (pd # pds) s = reject_all e pds ?t"
    by (simp add: reject_all_def)
  also have "\<dots> = ?t\<lparr>promises := (\<lambda>p. if p \<in> set (map pd_promise pds) \<and> promises ?t p = Pending
                 then Rejected e else promises ?t p),
       effects := effects ?t @ map (\<lambda>pd. Reject (pd_promise pd) e) pds\<rparr>"
    by (rule Cons.IH)
  also have "\<dots> = s\<lparr>promises := (\<lambda>p. if p \<in> set (map pd_promise (pd # pds)) \<and> promises s p = Pending
                 then Rejected e else promises s p),
       effects := effects s @ map (\<lambda>pd. Reject (pd_promise pd) e) (pd # pds)\<rparr>"
    unfolding F E by (rule reject_overwritten)
  finally show ?case .
qed

lemma cleanup_eq:
  "cleanup s =
     (let s1 = stopPingInterval s;
          s2 = (case reconnectTimeoutId s1 of
                  None \<Rightarrow> s1
                | Some h \<Rightarrow> (clearTimer h s1)\<lparr>reconnectTimeoutId := None\<rparr>)
      in (reject_all (Error ''Connection closed'') (map snd (pendingSubscriptions s2)) s2)
           \<lparr>pendingSubscriptions := []\<rparr>)"
  by (simp add: cleanup_def reject_all_def Let_def)

lemma cleanup_fields:
  "pingIntervalId (cleanup s) = None" "reconnectTimeoutId (cleanup s) = None"
  "pendingSubscriptions (cleanup s) = []" "ws (cleanup s) = ws s" "sockets (cleanup s) = sockets s"
  "isManualDisconnect (cleanup s) = isManualDisconnect s" "config (cleanup s) = config s"
  "reconnectAttempts (cleanup s) = reconnectAttempts s" "listeners (cleanup s) = listeners s"
  "awaiting (cleanup s) = awaiting s" "maps (cleanup s) = maps s" "fresh (cleanup s) = fresh s"
  "subscriptions (cleanup s) = subscriptions s" "bearerToken (cleanup s) = bearerToken s"
  "authResolve (cleanup s) = authResolve s" "authReject (cleanup s) = authReject s"
  "isConnecting (cleanup s) = isConnecting s" "ctorThrows (cleanup s) = ctorThrows s"
  "idStream (cleanup s) = idStream s" "userId (cleanup s) = userId s"
  by (simp_all add: cleanup_eq reject_all_eq stopPingInterval_def clearTimer_def eff_def Let_def
      split: option.splits)

lemma cleanup_timers:
  "timers (cleanup s) =
     (\<lambda>h. if pingIntervalId s = Some h \<or> reconnectTimeoutId s = Some h then None else timers s h)"
  by (auto simp: cleanup_eq reject_all_eq stopPingInterval_def clearTimer_def eff_def Let_def
      split: option.splits intro!: ext)

lemma cleanup_promises:
  "promises (cleanup s) =
     (\<lambda>p. if p \<in> set (map (pd_promise \<circ> snd) (pendingSubscriptions s)) \<and> promises s p = Pending
          then Rejected (Error ''Connection closed'') else promises s p)"
  by (auto simp: cleanup_eq reject_all_eq stopPingInterval_def clearTimer_def eff_def Let_def
      split: option.splits intro!: ext)

lemma cleanup_effects:
  "effects (cleanup s) = effects s @
     (case pingIntervalId s of None \<Rightarrow> [] | Some h \<Rightarrow> [ClearTimer h]) @
     (case reconnectTimeoutId s of None \<Rightarrow> [] | Some h \<Rightarrow> [ClearTimer h]) @
     map (\<lambda>(subscriptionId, pending). Reject (pd_promise pending) (Error ''Connection closed''))
       (pendingSubscriptions s)"
  by (auto simp: cleanup_eq reject_all_eq stopPingInterval_def clearTimer_def eff_def Let_def
      case_prod_unfold split: option.splits)

lemma cleanup_noop:
  assumes "pingIntervalId s = None" "reconnectTimeoutId s = None" "pendingSubscriptions s = []"
  shows "cleanup s = s"
  using assms
  by (cases s) (simp add: cleanup_eq reject_all_def stopPingInterval_def Let_def)

lemma disconnect_noop:
  assumes "isManualDisconnect s" "pingIntervalId s = None" "reconnectTimeoutId s = None"
    "pendingSubscriptions s = []" "ws s = None"
  shows "disconnect s = s"
proof -
  have m: "s\<lparr>isManualDisconnect := True\<rparr> = s" using assms(1) by (cases s) simp
  show ?thesis using assms by (simp add: disconnect_def m cleanup_noop Let_def)
qed

lemma disconnect_fields:
  "isManualDisconnect (disconnect s)" "pingIntervalId (disconnect s) = None"
  "reconnectTimeoutId (disconnect s) = None" "pendingSubscriptions (disconnect s) = []"
  "ws (disconnect s) = None" "config (disconnect s) = config s"
  "reconnectAttempts (disconnect s) = reconnectAttempts s" "listeners (disconnect s) = listeners s"
  "awaiting (disconnect s) = awaiting s" "maps (disconnect s) = maps s"
  by (simp_all add: disconnect_def Let_def cleanup_fields ws_close_def start_closing_def eff_def set_ready_def
      split: option.splits)

lemma disconnect_timers:
  "timers (disconnect s) h =
     (if pingIntervalId s = Some h \<or> reconnectTimeoutId s = Some h then None else timers s h)"
  by (simp add: disconnect_def Let_def cleanup_fields cleanup_timers ws_close_def start_closing_def eff_def set_ready_def
      split: option.splits)

lemma disconnect_promises:
  "promises (disconnect s) p =
     (if p \<in> set (map (pd_promise \<circ> snd) (pendingSubscriptions s)) \<and> promises s p = Pending
      then Rejected (Error ''Connection closed'') else promises s p)"
  by (simp add: disconnect_def Let_def cleanup_fields cleanup_promises ws_close_def start_closing_def eff_def set_ready_def
      split: option.splits)

lemma disconnect_effects:
  "effects (disconnect s) = effects s @
     (case pingIntervalId s of None \<Rightarrow> [] | Some h \<Rightarrow> [ClearTimer h]) @
     (case reconnectTimeoutId s of None \<Rightarrow> [] | Some h \<Rightarrow> [ClearTimer h]) @
     map (\<lambda>(subscriptionId, pending). Reject (pd_promise pending) (Error ''Connection closed''))
       (pendingSubscriptions s) @
     (case ws s of None \<Rightarrow> [] | Some k \<Rightarrow> [WsClose k (Some 1000) ''Client disconnect''])"
  by (simp add: disconnect_def Let_def cleanup_fields cleanup_effects ws_close_def start_closing_def eff_def set_ready_def
      split: option.splits)

lemma disconnect_ready:
  "ready (disconnect s) k =
     (if ws s = Some k \<and> (ready s k = CONNECTING \<or> ready s k = OPEN) then CLOSING else ready s k)"
  by (auto simp: disconnect_def Let_def cleanup_fields ws_close_def start_closing_def eff_def set_ready_def ready_def
      split: option.splits)

lemma manual_close_schedules_nothing:
  fixes reason :: string and k :: nat
  assumes "isManualDisconnect t" "ws t = None"
  defines "u \<equiv> step (SocketCloses k reason) t"
  shows "reconnect_delays (effects u) = reconnect_delays (effects t) \<and>
    reconnectAttempts u = reconnectAttempts t \<and> isManualDisconnect u"
proof (cases "sockets t k")
  case None
  then have h: "handle (SocketCloses k reason) t = t" by (simp add: onclose_def set_ready_def)
  have "\<not> ws_open t" using assms(2) by (simp add: ws_open_def)
  then have "quiet t (run_microtasks t)" by (rule run_microtasks_not_open)
  then show ?thesis unfolding u_def step_def h by (simp add: quiet_fields assms)
next
  case (Some sock)
  define s0 where "s0 = set_ready k CLOSED t"
  have k0: "sockets s0 k = Some (Socket CLOSED (connectionTimeout sock) (connectPromise sock))"
    by (simp add: s0_def set_ready_sockets[OF Some])
  from onclose_before_decision[OF k0, of reason] obtain s3 where s3':
    "onclose k reason s0 = (if \<not> isManualDisconnect s0 \<and> autoReconnect (config s0) then scheduleReconnect s3 else s3) \<and>
    config s3 = config s0 \<and> listeners s3 = listeners s0 \<and> isManualDisconnect s3 = isManualDisconnect s0 \<and>
    ctorThrows s3 = ctorThrows s0 \<and> ws s3 = ws s0 \<and> sockets s3 = sockets s0 \<and>
    reconnectAttempts s3 = reconnectAttempts s0 \<and> awaiting s3 = awaiting s0 \<and>
    bearerToken s3 = bearerToken s0 \<and> isConnecting s3 = False \<and>
    reconnect_delays (effects s3) = reconnect_delays (effects s0) \<and>
    error_events (effects s3) = error_events (effects s0) \<and>
    sent_frames (effects s3) = sent_frames (effects s0)" ..
  then have s3: "onclose k reason s0 = s3" "isManualDisconnect s3" "ws s3 = None"
    "reconnectAttempts s3 = reconnectAttempts t"
    "reconnect_delays (effects s3) = reconnect_delays (effects t)"
    using assms(1,2) by (simp_all add: s0_def set_ready_fields)
  have "\<not> ws_open s3" using s3(3) by (simp add: ws_open_def)
  then have q: "quiet s3 (run_microtasks s3)" by (rule run_microtasks_not_open)
  have "u = run_microtasks s3" by (simp add: u_def step_def s0_def[symmetric] s3(1))
  then show ?thesis using s3 by (simp add: quiet_fields[OF q])
qed

lemma subscribed_module_fields:
  "pingIntervalId subscribed_module = Some 4"
  "reconnectTimeoutId subscribed_module = None"
  "pendingSubscriptions subscribed_module =
     [(''i'', PendingData 5 (SubscriptionData ''chat'' ''message'' None))]"
  "ws subscribed_module = Some 2"
  "ready subscribed_module 2 = OPEN"
  "promises subscribed_module 5 = Pending"
  "timers subscribed_module 6 = Some (SubscriptionTimeoutTask ''i'' 5)"
  "reconnectAttempts subscribed_module = 0"
  "awaiting subscribed_module = []"
  "subs subscribed_module = []"
  by (simp_all add: subscribed_module_def connected_module_def fresh_module_def model_defs
      subscribe_def generateId_def example_ids_def subs_def)

lemma connect_idle_eq:
  assumes "\<not> ws_open s" "\<not> isConnecting s" "ctorThrows s = None"
  shows "connect s =
    (fresh s,
     s\<lparr>isConnecting := True, isManualDisconnect := False, reconnectAttempts := 0,
       promises := (promises s)(fresh s := Pending),
       authResolve := Some (fresh s), authReject := Some (fresh s),
       sockets := (sockets s)(Suc (fresh s) \<mapsto> Socket CONNECTING (Suc (Suc (fresh s))) (fresh s)),
       ws := Some (Suc (fresh s)),
       timers := (timers s)(Suc (Suc (fresh s)) \<mapsto> ConnectionTimeoutTask (Suc (fresh s))),
       fresh := Suc (Suc (Suc (fresh s))),
       effects := effects s @ [NewWebSocket (Suc (fresh s)),
          SetTimeout (Suc (Suc (fresh s))) (ConnectionTimeoutTask (Suc (fresh s))) 10000]\<rparr>)"
proof -
  have c: "ctorThrows (s\<lparr>isConnecting := True, isManualDisconnect := False, reconnectAttempts := 0\<rparr>) = None"
    using assms(3) by simp
  show ?thesis using assms(1,2) by (simp add: connect_def private_connect_ok[OF c])
qed

lemma quiet_effects:
  assumes "quiet s s'"
  shows "\<exists>es. effects s' = effects s @ es \<and> list_all is_reject es"
proof -
  from assms obtain es where
    eq: "s' = s\<lparr>promises := promises s', fresh := fresh s', awaiting := awaiting s',
                  effects := effects s @ es\<rparr>" and r: "list_all is_reject es"
    unfolding quiet_def by blast
  have "effects s' = effects s @ es" by (subst eq) simp
  with r show ?thesis by blast
qed

text \<open>The state of a module whose \<open>connect()\<close> has just created socket \<open>k\<close>.\<close>

lemma step_connect_idle:
  assumes "\<not> ws_open s" "\<not> isConnecting s" "ctorThrows s = None"
  defines "t \<equiv> step CallConnect s"
  shows "ws t = Some (Suc (fresh s))"
    "sockets t (Suc (fresh s)) = Some (Socket CONNECTING (Suc (Suc (fresh s))) (fresh s))"
    "timers t (Suc (Suc (fresh s))) = Some (ConnectionTimeoutTask (Suc (fresh s)))"
    "promises t (fresh s) = Pending" "bearerToken t = bearerToken s"
    "sent_frames (effects t) = sent_frames (effects s)"
    "SetTimeout (Suc (Suc (fresh s))) (ConnectionTimeoutTask (Suc (fresh s))) 10000 \<in> set (effects t)"
    "authReject t = Some (fresh s)" "authResolve t = Some (fresh s)"
    "Suc (Suc (Suc (fresh s))) \<le> fresh t" "config t = config s"
proof -
  define c where "c = snd (connect s)"
  note ceq = connect_idle_eq[OF assms(1-3)]
  have cf: "ws c = Some (Suc (fresh s))"
    "sockets c (Suc (fresh s)) = Some (Socket CONNECTING (Suc (Suc (fresh s))) (fresh s))"
    "timers c (Suc (Suc (fresh s))) = Some (ConnectionTimeoutTask (Suc (fresh s)))"
    "promises c (fresh s) = Pending" "bearerToken c = bearerToken s"
    "sent_frames (effects c) = sent_frames (effects s)"
    "SetTimeout (Suc (Suc (fresh s))) (ConnectionTimeoutTask (Suc (fresh s))) 10000 \<in> set (effects c)"
    "authReject c = Some (fresh s)" "authResolve c = Some (fresh s)"
    "fresh c = Suc (Suc (Suc (fresh s)))" "config c = config s"
    unfolding c_def ceq by simp_all
  have no: "\<not> ws_open c" by (simp add: ws_open_def ready_def cf)
  have q: "quiet c t" unfolding t_def step_def handle.simps c_def[symmetric]
    using no by (rule run_microtasks_not_open)
  obtain es where e: "effects t = effects c @ es"
    using quiet_effects[OF q] by blast
  show "ws t = Some (Suc (fresh s))" by (simp add: quiet_fields[OF q] cf)
  show "sockets t (Suc (fresh s)) = Some (Socket CONNECTING (Suc (Suc (fresh s))) (fresh s))"
    by (simp add: quiet_fields[OF q] cf)
  show "timers t (Suc (Suc (fresh s))) = Some (ConnectionTimeoutTask (Suc (fresh s)))"
    by (simp add: quiet_fields[OF q] cf)
  show "promises t (fresh s) = Pending"
    using quiet_old_promises[OF q, of "fresh s"] by (simp add: cf)
  show "bearerToken t = bearerToken s" by (simp add: quiet_fields[OF q] cf)
  show "sent_frames (effects t) = sent_frames (effects s)" by (simp add: quiet_fields[OF q] cf)
  show "SetTimeout (Suc (Suc (fresh s))) (ConnectionTimeoutTask (Suc (fresh s))) 10000 \<in> set (effects t)"
    using cf(7) by (simp add: e)
  show "authReject t = Some (fresh s)" by (simp add: quiet_fields[OF q] cf)
  show "authResolve t = Some (fresh s)" by (simp add: quiet_fields[OF q] cf)
  show "Suc (Suc (Suc (fresh s))) \<le> fresh t" using quiet_fresh[OF q] by (simp add: cf)
  show "config t = config s" by (simp add: quiet_fields[OF q] cf)
qed

lemma onopen_no_token:
  assumes "sockets s k = Some (Socket CONNECTING h p)" "ws s = Some k" "\<not> truthy (bearerToken s)"
  shows "handle (SocketOpens k) s =
    s\<lparr>sockets := (sockets s)(k \<mapsto> Socket OPEN h p), timers := (timers s)(h := None),
      isConnecting := False, authResolve := None, authReject := None,
      effects := effects s @ [ClearTimer h, Uncaught (Error ''InvalidAccessError'')]\<rparr>"
  using assms
  by (simp add: onopen_def set_ready_def ready_def clearTimer_def eff_def ws_close_def Let_def)



lemma step_idle:
  assumes "list_all (\<lambda>(p, rest). promises (handle i s) p = Pending) (awaiting (handle i s))"
  shows "step i s = handle i s"
  unfolding step_def using assms by (rule run_microtasks_idle)


lemma run_Cons: "run (i # inputs) s = run inputs (step i s)"
  by (simp add: run_def)

lemma run_Nil: "run [] s = s"
  by (simp add: run_def)

lemma step_no_await: "awaiting (handle i s) = [] \<Longrightarrow> step i s = handle i s"
  by (rule step_idle) simp

lemma map_option_upd:
  "map_option f \<circ> (m(k \<mapsto> v)) = (map_option f \<circ> m)(k \<mapsto> f v)"
  "map_option f \<circ> (m(k := None)) = (map_option f \<circ> m)(k := None)"
  by (auto simp: fun_eq_iff)

lemma ledger_of_frame:
  assumes "pendingSubscriptions t = pendingSubscriptions s" "subs t = subs s"
  shows "ledger_of t = ledger_of s"
  using assms by (simp add: ledger_of_def)

lemma subscribe_registry:
  "awaiting (snd (subscribe d r opts s)) = awaiting s \<and>
   reconnectAttempts (snd (subscribe d r opts s)) = reconnectAttempts s \<and>
   ledger_of (snd (subscribe d r opts s)) =
     ledger_step (registry_event (CallSubscribe d r opts) s) (ledger_of s)"
  by (auto simp: subscribe_def ws_open_def ready_def new_promise_def reject_eq generateId_def
      setTimeout_def eff_def Let_def ledger_of_def subs_def update_conv' map_option_upd
      split: option.splits)

lemma unsubscribe_registry:
  "awaiting (snd (unsubscribe subscriptionId s)) = awaiting s \<and>
   reconnectAttempts (snd (unsubscribe subscriptionId s)) = reconnectAttempts s \<and>
   ledger_of (snd (unsubscribe subscriptionId s)) =
     ledger_step (registry_event (CallUnsubscribe subscriptionId) s) (ledger_of s)"
  by (auto simp: unsubscribe_def ws_open_def ready_def new_promise_def reject_eq resolve_eq
      eff_def Let_def ledger_of_def subs_def subs_update_def delete_conv'
      split: option.splits)

lemma subscriptionTimeout_registry:
  "awaiting (subscriptionTimeout subscriptionId p s) = awaiting s \<and>
   reconnectAttempts (subscriptionTimeout subscriptionId p s) = reconnectAttempts s \<and>
   ledger_of (subscriptionTimeout subscriptionId p s) = ledger_step (TimedOut subscriptionId) (ledger_of s)"
  by (auto simp: subscriptionTimeout_def reject_eq ledger_of_def subs_def delete_conv' map_option_upd
      fun_eq_iff)

lemma handleSubscriptionConfirmed_registry:
  "awaiting (handleSubscriptionConfirmed subscriptionId d r f s) = awaiting s \<and>
   reconnectAttempts (handleSubscriptionConfirmed subscriptionId d r f s) = reconnectAttempts s \<and>
   ledger_of (handleSubscriptionConfirmed subscriptionId d r f s) =
     ledger_step (Confirmed subscriptionId) (ledger_of s)"
  by (auto simp: handleSubscriptionConfirmed_def resolve_eq emit_eq ledger_of_def subs_def
      subs_update_def delete_conv' update_conv' map_option_upd Let_def
      split: option.splits)

lemma handleMessage_registry:
  assumes "reconnectAttempts s = 0"
  shows "awaiting (handleMessage m s) = awaiting s \<and>
   reconnectAttempts (handleMessage m s) = 0 \<and>
   ledger_of (handleMessage m s) =
     ledger_step (case m of subscription_confirmed subscriptionId d r f \<Rightarrow> Confirmed subscriptionId
                  | unsubscribed subscriptionId \<Rightarrow> Unsubscribed subscriptionId
                  | _ \<Rightarrow> Unrelated) (ledger_of s)"
proof (cases m)
  case (connected uid msg sys)
  then show ?thesis using assms
    by (simp add: emit_eq resolve_eq startPingInterval_def setInterval_def eff_def Let_def
        ledger_of_def subs_def split: option.splits)
next
  case (auth_error e)
  then show ?thesis using assms
    by (simp add: reject_eq ws_close_def start_closing_def set_ready_def eff_def Let_def ledger_of_def subs_def
        split: option.splits)
next
  case (subscription_confirmed subscriptionId d r f)
  then show ?thesis using assms handleSubscriptionConfirmed_registry[of subscriptionId d r f s] by simp
next
  case (unsubscribed subscriptionId)
  then show ?thesis using assms
    by (simp add: ledger_of_def subs_def subs_update_def delete_conv')
qed (use assms in \<open>simp_all add: emit_eq ledger_of_def subs_def\<close>)

lemma undelivered_unrelated:
  assumes "\<not> delivered k s"
  shows "registry_event (SocketMessage k data) s = Unrelated"
proof (cases data)
  case None
  then show ?thesis by simp
next
  case (Some m)
  then show ?thesis using assms by (cases m) simp_all
qed

lemma handle_registry:
  assumes "settled_session s" "keeps_connection i s"
  shows "awaiting (handle i s) = [] \<and> reconnectAttempts (handle i s) = 0 \<and>
    ledger_of (handle i s) = ledger_step (registry_event i s) (ledger_of s)"
proof -
  have a: "awaiting s = []" and r: "reconnectAttempts s = 0"
    using assms(1) by (simp_all add: settled_session_def)
  show ?thesis
  proof (cases i)
    case (CallSubscribe d r opts)
    then show ?thesis using subscribe_registry[of d r opts s] a r by simp
  next
    case (CallUnsubscribe subscriptionId)
    then show ?thesis using unsubscribe_registry[of subscriptionId s] a r by simp
  next
    case (CallOn ev cb)
    then show ?thesis using a r by (simp add: on_def ledger_of_def subs_def Let_def)
  next
    case (CallOff ev cb)
    then show ?thesis using a r by (simp add: off_def ledger_of_def subs_def split: option.splits)
  next
    case (CallSendTypingEvent c e)
    then show ?thesis using a r
      by (simp add: sendTypingEvent_def eff_def ledger_of_def subs_def split: option.splits)
  next
    case CallGetSubscriptions
    then show ?thesis using a r by (simp add: getSubscriptions_def ledger_of_def subs_def)
  next
    case CallPing
    then show ?thesis using a r by (simp add: ping_def eff_def ledger_of_def subs_def split: option.splits)
  next
    case (CallUpdateConfig merge)
    then show ?thesis using a r
      by (simp add: updateConfig_def startPingInterval_def stopPingInterval_def setInterval_def
          clearTimer_def eff_def ledger_of_def subs_def Let_def split: option.splits)
  next
    case (CallSetBearerToken token)
    then show ?thesis using a r by (simp add: setBearerToken_def ledger_of_def subs_def)
  next
    case (SocketMessage k data)
    show ?thesis
    proof (cases "delivered k s")
      case False
      then have "handle i s = s" using SocketMessage by (auto simp: delivered_def)
      moreover have "registry_event i s = Unrelated"
        using undelivered_unrelated[OF False] SocketMessage by simp
      ultimately show ?thesis using a r by simp
    next
      case True
      show ?thesis
      proof (cases data)
        case None
        then show ?thesis using SocketMessage True a r by (simp add: onmessage_def delivered_def)
      next
        case (Some m)
        then show ?thesis using SocketMessage True a r handleMessage_registry[OF r, of m]
          by (cases m; simp add: onmessage_def delivered_def)
      qed
    qed
  next
    case (TimerFires h)
    show ?thesis
    proof (cases "timers s h")
      case None
      then show ?thesis using TimerFires a r by (simp add: fire_def)
    next
      case (Some task)
      then show ?thesis using TimerFires a r assms(2)
          subscriptionTimeout_registry[of _ _ "s\<lparr>timers := (timers s)(h := None)\<rparr>"]
        by (cases task; simp add: fire_def ping_def eff_def ledger_of_def subs_def split: option.splits)
    qed
  qed (use assms(2) in simp_all)
qed

lemma step_registry:
  assumes "settled_session s" "keeps_connection i s"
  shows "settled_session (step i s) \<and>
    ledger_of (step i s) = ledger_step (registry_event i s) (ledger_of s)"
proof -
  note h = handle_registry[OF assms]
  then have "step i s = handle i s" by (intro step_no_await) simp
  with h show ?thesis by (simp add: settled_session_def)
qed

lemma run_registry:
  assumes "settled_session s" "connected_run inputs s"
  shows "settled_session (run inputs s) \<and>
    ledger_of (run inputs s) = ledger_run inputs s (ledger_of s)"
  using assms
proof (induction inputs arbitrary: s)
  case Nil
  then show ?case by (simp add: run_Nil)
next
  case (Cons i inputs)
  then have k: "keeps_connection i s" and c: "connected_run inputs (step i s)" by simp_all
  note st = step_registry[OF Cons.prems(1) k]
  then have "settled_session (step i s)" by simp
  from Cons.IH[OF this c] st show ?case by (simp add: run_Cons)
qed

lemma example_session_run:
  "connected_run example_session connected_module"
  "subs (run example_session connected_module) = [(''ii'', SubscriptionData ''trip'' ''itinerary'' None)]"
  "pendingSubscriptions (run example_session connected_module) = []"
  by (simp_all add: example_session_def connected_module_def fresh_module_def model_defs
      subscribe_def unsubscribe_def generateId_def example_ids_def subs_def subs_update_def
      handleSubscriptionConfirmed_def)

lemma subscribe_requests_simps [simp]:
  "subscribe_requests [] = []"
  "subscribe_requests (xs @ ys) = subscribe_requests xs @ subscribe_requests ys"
  "subscribe_requests (e # es) = subscribe_request e @ subscribe_requests es"
  by (simp_all add: subscribe_requests_def)

lemma subscribe_requests_listener_trace [simp]:
  "subscribe_requests (listener_trace ev arg cbs) = []"
  by (induction cbs) (auto simp: listener_effects_def split: option.splits)













lemma connected_module_eq:
  "connected_module =
     \<lparr>config = \<lparr>pingInterval = 30000, autoReconnect = True,
     maxReconnectAttempts = 5, reconnectDelay = 1000, maxReconnectDelay = 30000,
     debug = False\<rparr>, ws = Some 2, pingIntervalId = Some 4, reconnectAttempts = 0,
     reconnectTimeoutId = None, isConnecting = False, isManualDisconnect = False,
     subscriptions = 0, pendingSubscriptions = [], listeners = \<lambda>x. None,
     userId = Some ''u1'', bearerToken = Some ''token'', authResolve = None,
     authReject = None, sockets = [2 \<mapsto> Socket OPEN 3 1], timers = [4 \<mapsto> PingTask],
     promises = (\<lambda>_. Pending)(1 := Fulfilled (VConnected (connected ''u1'' ''welcome'' []))),
     maps = \<lambda>_. [], fresh = 5, awaiting = [], idStream = example_ids,
     ctorThrows = None, effects = [NewWebSocket 2, SetTimeout 3 (ConnectionTimeoutTask 2) 10000,
     ClearTimer 3, WsSend 2 (auth ''token''), Resolve 1 (VConnected (connected ''u1'' ''welcome'' [])),
     SetInterval 4 PingTask 30000]\<rparr>"
  by (simp add: connected_module_def fresh_module_def model_defs eval_nat_numeral)

lemmas registry_defs =
  subscribe_def unsubscribe_def generateId_def example_ids_def subs_def subs_update_def
  handleSubscriptionConfirmed_def subscriptionTimeout_def filters_or_empty_def
  include_data_or_false_def resubscribeAll_def ping_def fire_def

lemmas connection_defs =
  onclose_def onerror_def scheduleReconnect_def reconnectFired_def connectionTimeoutFired_def
  or_else_def disconnect_def cleanup_def ws_close_def start_closing_def

lemma two_subscriptions_eq:
  "two_subscriptions =
     \<lparr>config = \<lparr>pingInterval = 30000, autoReconnect = True,
     maxReconnectAttempts = 5, reconnectDelay = 1000, maxReconnectDelay = 30000,
     debug = False\<rparr>, ws = Some 2, pingIntervalId = Some 4, reconnectAttempts = 0,
     reconnectTimeoutId = None, isConnecting = False, isManualDisconnect = False,
     subscriptions = 0, pendingSubscriptions = [], listeners = \<lambda>x. None,
     userId = Some ''u1'', bearerToken = Some ''token'', authResolve = None,
     authReject = None, sockets = [2 \<mapsto> Socket OPEN 3 1], timers = [4 \<mapsto> PingTask,
     6 \<mapsto> SubscriptionTimeoutTask ''i'' 5, 8 \<mapsto> SubscriptionTimeoutTask ''ii'' 7],
     promises = (\<lambda>_. Pending)(1 := Fulfilled (VConnected (connected ''u1'' ''welcome'' [])),
     5 := Fulfilled (VSubscription (Subscription ''i'' ''chat'' ''message'' (SubscriptionFilters None None None None))),
     7 := Fulfilled (VSubscription (Subscription ''ii'' ''trip'' ''itinerary'' (SubscriptionFilters None None None None)))),
     maps = (\<lambda>_. [])(0 := [(''i'', SubscriptionData ''chat'' ''message'' None),
     (''ii'', SubscriptionData ''trip'' ''itinerary'' None)]), fresh = 9,
     awaiting = [], idStream = \<lambda>n. CHR ''i'' # CHR ''i'' # CHR ''i'' # replicate n CHR ''i'',
     ctorThrows = None, effects = [NewWebSocket 2, SetTimeout 3 (ConnectionTimeoutTask 2) 10000,
     ClearTimer 3, WsSend 2 (auth ''token''), Resolve 1 (VConnected (connected ''u1'' ''welcome'' [])),
     SetInterval 4 PingTask 30000, WsSend 2 (subscribe_frame ''i'' ''chat'' ''message'' (SubscriptionFilters None None None None) False),
     SetTimeout 6 (SubscriptionTimeoutTask ''i'' 5) 10000, Resolve 5 (VSubscription (Subscription ''i'' ''chat'' ''message'' (SubscriptionFilters None None None None))),
     WsSend 2 (subscribe_frame ''ii'' ''trip'' ''itinerary'' (SubscriptionFilters None None None None) False),
     SetTimeout 8 (SubscriptionTimeoutTask ''ii'' 7) 10000, Resolve 7 (VSubscription (Subscription ''ii'' ''trip'' ''itinerary'' (SubscriptionFilters None None None None)))]\<rparr>"
  by (simp add: two_subscriptions_def example_session_def connected_module_eq model_defs registry_defs eval_nat_numeral)

lemma reopened_module_eq:
  "reopened_module =
     \<lparr>config = \<lparr>pingInterval = 30000, autoReconnect = True,
     maxReconnectAttempts = 5, reconnectDelay = 1000, maxReconnectDelay = 30000,
     debug = False\<rparr>, ws = Some 11, pingIntervalId = None, reconnectAttempts = 1,
     reconnectTimeoutId = Some 9, isConnecting = False, isManualDisconnect = False,
     subscriptions = 0, pendingSubscriptions = [], listeners = \<lambda>x. None,
     userId = Some ''u1'', bearerToken = Some ''token'', authResolve = Some 10,
     authReject = Some 10, sockets = [2 \<mapsto> Socket CLOSED 3 1, 11 \<mapsto> Socket OPEN 12 10],
     timers = [6 \<mapsto> SubscriptionTimeoutTask ''i'' 5, 8 \<mapsto> SubscriptionTimeoutTask ''ii'' 7],
     promises = (\<lambda>_. Pending)(1 := Fulfilled (VConnected (connected ''u1'' ''welcome'' [])),
     5 := Fulfilled (VSubscription (Subscription ''i'' ''chat'' ''message'' (SubscriptionFilters None None None None))),
     7 := Fulfilled (VSubscription (Subscription ''ii'' ''trip'' ''itinerary'' (SubscriptionFilters None None None None))),
     10 := Pending), maps = (\<lambda>_. [])(0 := [(''i'', SubscriptionData ''chat'' ''message'' None),
     (''ii'', SubscriptionData ''trip'' ''itinerary'' None)]), fresh = 13,
     awaiting = [], idStream = \<lambda>n. CHR ''i'' # CHR ''i'' # CHR ''i'' # replicate n CHR ''i'',
     ctorThrows = None, effects = [NewWebSocket 2, SetTimeout 3 (ConnectionTimeoutTask 2) 10000,
     ClearTimer 3, WsSend 2 (auth ''token''), Resolve 1 (VConnected (connected ''u1'' ''welcome'' [])),
     SetInterval 4 PingTask 30000, WsSend 2 (subscribe_frame ''i'' ''chat'' ''message'' (SubscriptionFilters None None None None) False),
     SetTimeout 6 (SubscriptionTimeoutTask ''i'' 5) 10000, Resolve 5 (VSubscription (Subscription ''i'' ''chat'' ''message'' (SubscriptionFilters None None None None))),
     WsSend 2 (subscribe_frame ''ii'' ''trip'' ''itinerary'' (SubscriptionFilters None None None None) False),
     SetTimeout 8 (SubscriptionTimeoutTask ''ii'' 7) 10000, Resolve 7 (VSubscription (Subscription ''ii'' ''trip'' ''itinerary'' (SubscriptionFilters None None None None))),
     ClearTimer 3, ClearTimer 4, SetTimeout 9 ReconnectTask 1000, NewWebSocket 11,
     SetTimeout 12 (ConnectionTimeoutTask 11) 10000, ClearTimer 12, WsSend 11 (auth ''token'')]\<rparr>"
  by (simp add: reopened_module_def two_subscriptions_eq model_defs registry_defs connection_defs eval_nat_numeral)


lemma with_map_fields [simp]:
  "config (with_map r tb s) = config s" "ws (with_map r tb s) = ws s"
  "pingIntervalId (with_map r tb s) = pingIntervalId s" "reconnectAttempts (with_map r tb s) = reconnectAttempts s"
  "reconnectTimeoutId (with_map r tb s) = reconnectTimeoutId s" "isConnecting (with_map r tb s) = isConnecting s"
  "isManualDisconnect (with_map r tb s) = isManualDisconnect s" "subscriptions (with_map r tb s) = subscriptions s"
  "pendingSubscriptions (with_map r tb s) = pendingSubscriptions s" "listeners (with_map r tb s) = listeners s"
  "userId (with_map r tb s) = userId s" "bearerToken (with_map r tb s) = bearerToken s"
  "authResolve (with_map r tb s) = authResolve s" "authReject (with_map r tb s) = authReject s"
  "sockets (with_map r tb s) = sockets s" "timers (with_map r tb s) = timers s"
  "promises (with_map r tb s) = promises s" "fresh (with_map r tb s) = fresh s"
  "awaiting (with_map r tb s) = awaiting s" "idStream (with_map r tb s) = idStream s"
  "ctorThrows (with_map r tb s) = ctorThrows s" "effects (with_map r tb s) = effects s"
  "maps (with_map r tb s) = (maps s)(r := tb)"
  by (simp_all add: with_map_def)

lemma with_map_ready [simp]: "ready (with_map r tb s) = ready s"
  by (simp add: ready_def fun_eq_iff)

lemma with_map_derived [simp]:
  "ws_open (with_map r tb s) = ws_open s" "registered (with_map r tb s) = registered s"
  by (simp_all add: ws_open_def registered_def fun_eq_iff split: option.splits)

lemma with_map_subs [simp]: "r \<noteq> subscriptions s \<Longrightarrow> subs (with_map r tb s) = subs s"
  by (simp add: subs_def)

text \<open>Updates of fields other than the heap of maps commute with a with_map.\<close>

lemma with_map_commutes:
  "eff e (with_map r tb s) = with_map r tb (eff e s)"
  "settle p st (with_map r tb s) = with_map r tb (settle p st s)"
  "resolve p v (with_map r tb s) = with_map r tb (resolve p v s)"
  "reject p err (with_map r tb s) = with_map r tb (reject p err s)"
  "new_promise (with_map r tb s) = with_map r tb (new_promise s)"
  "setTimeout task d (with_map r tb s) = with_map r tb (setTimeout task d s)"
  "setInterval task d (with_map r tb s) = with_map r tb (setInterval task d s)"
  "clearTimer h (with_map r tb s) = with_map r tb (clearTimer h s)"
  "set_ready k st' (with_map r tb s) = with_map r tb (set_ready k st' s)"
  "start_closing k code reason (with_map r tb s) = with_map r tb (start_closing k code reason s)"
  "emit ev arg (with_map r tb s) = with_map r tb (emit ev arg s)"
  "startPingInterval (with_map r tb s) = with_map r tb (startPingInterval s)"
  "stopPingInterval (with_map r tb s) = with_map r tb (stopPingInterval s)"
  "ping (with_map r tb s) = with_map r tb (ping s)"
  by (simp_all add: with_map_def eff_def settle_def resolve_def reject_def new_promise_def setTimeout_def
      setInterval_def clearTimer_def set_ready_def ws_close_def start_closing_def emit_eq registered_def ready_def
      startPingInterval_def stopPingInterval_def ping_def split: option.splits)

lemma with_map_subs_update:
  "r \<noteq> subscriptions s \<Longrightarrow> subs_update f (with_map r tb s) = with_map r tb (subs_update f s)"
  by (simp add: with_map_def subs_update_def fun_upd_twist)

lemma with_map_subscribe:
  "subscribe d x opts (with_map r tb s) = (fst (subscribe d x opts s), with_map r tb (snd (subscribe d x opts s)))"
  by (simp add: with_map_def subscribe_def new_promise_def reject_eq generateId_def setTimeout_def eff_def
      ready_def Let_def split: option.splits)

lemma with_map_updates:
  "(with_map r tb s)\<lparr>config := a1\<rparr> = with_map r tb (s\<lparr>config := a1\<rparr>)"
  "(with_map r tb s)\<lparr>ws := a2\<rparr> = with_map r tb (s\<lparr>ws := a2\<rparr>)"
  "(with_map r tb s)\<lparr>pingIntervalId := a3\<rparr> = with_map r tb (s\<lparr>pingIntervalId := a3\<rparr>)"
  "(with_map r tb s)\<lparr>reconnectAttempts := a4\<rparr> = with_map r tb (s\<lparr>reconnectAttempts := a4\<rparr>)"
  "(with_map r tb s)\<lparr>reconnectTimeoutId := a5\<rparr> = with_map r tb (s\<lparr>reconnectTimeoutId := a5\<rparr>)"
  "(with_map r tb s)\<lparr>isConnecting := a6\<rparr> = with_map r tb (s\<lparr>isConnecting := a6\<rparr>)"
  "(with_map r tb s)\<lparr>isManualDisconnect := a7\<rparr> = with_map r tb (s\<lparr>isManualDisconnect := a7\<rparr>)"
  "(with_map r tb s)\<lparr>pendingSubscriptions := a8\<rparr> = with_map r tb (s\<lparr>pendingSubscriptions := a8\<rparr>)"
  "(with_map r tb s)\<lparr>listeners := a9\<rparr> = with_map r tb (s\<lparr>listeners := a9\<rparr>)"
  "(with_map r tb s)\<lparr>userId := b1\<rparr> = with_map r tb (s\<lparr>userId := b1\<rparr>)"
  "(with_map r tb s)\<lparr>bearerToken := b2\<rparr> = with_map r tb (s\<lparr>bearerToken := b2\<rparr>)"
  "(with_map r tb s)\<lparr>authResolve := b3\<rparr> = with_map r tb (s\<lparr>authResolve := b3\<rparr>)"
  "(with_map r tb s)\<lparr>authReject := b4\<rparr> = with_map r tb (s\<lparr>authReject := b4\<rparr>)"
  "(with_map r tb s)\<lparr>sockets := b5\<rparr> = with_map r tb (s\<lparr>sockets := b5\<rparr>)"
  "(with_map r tb s)\<lparr>timers := b6\<rparr> = with_map r tb (s\<lparr>timers := b6\<rparr>)"
  "(with_map r tb s)\<lparr>promises := b7\<rparr> = with_map r tb (s\<lparr>promises := b7\<rparr>)"
  "(with_map r tb s)\<lparr>fresh := b8\<rparr> = with_map r tb (s\<lparr>fresh := b8\<rparr>)"
  "(with_map r tb s)\<lparr>awaiting := b9\<rparr> = with_map r tb (s\<lparr>awaiting := b9\<rparr>)"
  "(with_map r tb s)\<lparr>idStream := c1\<rparr> = with_map r tb (s\<lparr>idStream := c1\<rparr>)"
  "(with_map r tb s)\<lparr>effects := c2\<rparr> = with_map r tb (s\<lparr>effects := c2\<rparr>)"
  by (simp_all add: with_map_def)

lemma subscriptions_kept:
  "subscriptions (eff e s) = subscriptions s"
  "subscriptions (settle p st s) = subscriptions s"
  "subscriptions (resolve p v s) = subscriptions s"
  "subscriptions (reject p err s) = subscriptions s"
  "subscriptions (new_promise s) = subscriptions s"
  "subscriptions (setTimeout task d s) = subscriptions s"
  "subscriptions (setInterval task d s) = subscriptions s"
  "subscriptions (clearTimer h s) = subscriptions s"
  "subscriptions (set_ready k st' s) = subscriptions s"
  "subscriptions (start_closing k code reason s) = subscriptions s"
  "subscriptions (emit ev arg s) = subscriptions s"
  "subscriptions (startPingInterval s) = subscriptions s"
  "subscriptions (stopPingInterval s) = subscriptions s"
  "subscriptions (ping s) = subscriptions s"
  "subscriptions (subs_update f s) = subscriptions s"
  by (simp_all add: eff_def settle_def resolve_def reject_def new_promise_def setTimeout_def
      setInterval_def clearTimer_def set_ready_def ws_close_def start_closing_def emit_eq
      startPingInterval_def stopPingInterval_def ping_def subs_update_def split: option.splits)

lemmas with_map_simps = with_map_commutes with_map_updates with_map_subs_update with_map_subscribe subscriptions_kept ws_close_def

lemma with_map_resubscribe_loop:
  "resubscribe_loop ds (with_map r tb s) = with_map r tb (resubscribe_loop ds s)"
proof (induction ds arbitrary: s)
  case Nil
  show ?case by simp
next
  case (Cons d ds)
  show ?case
    by (simp add: with_map_subscribe case_prod_unfold Cons.IH with_map_updates)
qed

lemma with_map_foldl_resume:
  "foldl (\<lambda>s' (p, rest). resubscribe_loop rest s') (with_map r tb s) xs =
   with_map r tb (foldl (\<lambda>s' (p, rest). resubscribe_loop rest s') s xs)"
  by (induction xs arbitrary: s) (simp_all add: case_prod_unfold with_map_resubscribe_loop)

lemma with_map_run_microtasks:
  "run_microtasks (with_map r tb s) = with_map r tb (run_microtasks s)"
  by (simp add: run_microtasks_def Let_def with_map_updates with_map_foldl_resume)

lemma with_map_resubscribeAll:
  "r \<noteq> subscriptions s \<Longrightarrow> resubscribeAll (with_map r tb s) = with_map r tb (resubscribeAll s)"
  by (simp add: resubscribeAll_def Let_def with_map_subs_update with_map_resubscribe_loop)

lemma with_map_scheduleReconnect:
  "scheduleReconnect (with_map r tb s) = with_map r tb (scheduleReconnect s)"
  by (simp add: scheduleReconnect_def Let_def with_map_simps)

lemma with_map_private_connect:
  "private_connect (with_map r tb s) = (fst (private_connect s), with_map r tb (snd (private_connect s)))"
  by (simp add: private_connect_def Let_def with_map_simps split: option.splits)

lemma with_map_connect:
  "connect (with_map r tb s) = (fst (connect s), with_map r tb (snd (connect s)))"
  by (simp add: connect_def with_map_simps with_map_private_connect)

lemma with_map_cleanup: "cleanup (with_map r tb s) = with_map r tb (cleanup s)"
proof -
  have "foldl (\<lambda>s' pending. reject (pd_promise pending) e s') (with_map r tb s) pds =
        with_map r tb (foldl (\<lambda>s' pending. reject (pd_promise pending) e s') s pds)" for e pds s
    by (induction pds arbitrary: s) (simp_all add: with_map_simps)
  then show ?thesis
    by (simp add: cleanup_def Let_def with_map_simps split: option.splits)
qed

lemma with_map_disconnect: "disconnect (with_map r tb s) = with_map r tb (disconnect s)"
  by (simp add: disconnect_def Let_def with_map_simps with_map_cleanup split: option.splits)

lemma with_map_unsubscribe:
  "r \<noteq> subscriptions s \<Longrightarrow>
   unsubscribe x (with_map r tb s) = (fst (unsubscribe x s), with_map r tb (snd (unsubscribe x s)))"
  by (simp add: unsubscribe_def Let_def with_map_simps new_promise_def split: option.splits)

lemma with_map_handleSubscriptionConfirmed:
  "r \<noteq> subscriptions s \<Longrightarrow>
   handleSubscriptionConfirmed x d y f (with_map r tb s) = with_map r tb (handleSubscriptionConfirmed x d y f s)"
  by (simp add: handleSubscriptionConfirmed_def Let_def with_map_simps split: option.splits)

lemma with_map_handleMessage:
  "r \<noteq> subscriptions s \<Longrightarrow> handleMessage m (with_map r tb s) = with_map r tb (handleMessage m s)"
  by (cases m)
     (simp_all add: Let_def with_map_simps with_map_handleSubscriptionConfirmed with_map_resubscribeAll
        split: option.splits)

lemma with_map_onopen: "onopen k (with_map r tb s) = with_map r tb (onopen k s)"
  by (simp add: onopen_def Let_def with_map_simps ws_send_def split: option.splits ReadyState.splits)

lemma with_map_onerror: "onerror k (with_map r tb s) = with_map r tb (onerror k s)"
  by (simp add: onerror_def Let_def with_map_simps split: option.splits)

lemma with_map_onclose: "onclose k reason (with_map r tb s) = with_map r tb (onclose k reason s)"
  by (simp add: onclose_def Let_def with_map_simps with_map_scheduleReconnect split: option.splits)

lemma with_map_fire: "fire h (with_map r tb s) = with_map r tb (fire h s)"
  by (simp add: fire_def connectionTimeoutFired_def subscriptionTimeout_def reconnectFired_def
      with_map_simps with_map_private_connect split: option.splits TimerTask.splits)

lemma with_map_getSubscriptions:
  "r \<noteq> subscriptions s \<Longrightarrow> r < fresh s \<Longrightarrow>
   getSubscriptions (with_map r tb s) = (fresh s, with_map r tb (snd (getSubscriptions s)))"
  by (simp add: getSubscriptions_def with_map_def fun_upd_twist)

lemma with_map_handle:
  assumes "r \<noteq> subscriptions s" "r < fresh s"
  shows "handle i (with_map r tb s) = with_map r tb (handle i s)"
proof (cases i)
  case (SocketMessage k data)
  then show ?thesis using assms(1)
    by (cases data) (simp_all add: onmessage_def with_map_handleMessage)
qed (use assms in \<open>simp_all add: with_map_connect with_map_disconnect with_map_subscribe with_map_unsubscribe
      on_def off_def sendTypingEvent_def with_map_getSubscriptions with_map_simps updateConfig_def
      setBearerToken_def with_map_onopen with_map_onerror with_map_onclose with_map_fire Let_def
      split: option.splits\<close>)

lemma fresh_kept:
  "fresh (eff e s) = fresh s"
  "fresh (settle p st s) = fresh s"
  "fresh (resolve p v s) = fresh s"
  "fresh (reject p err s) = fresh s"
  "fresh (new_promise s) = Suc (fresh s)"
  "fresh (setTimeout task d s) = Suc (fresh s)"
  "fresh (setInterval task d s) = Suc (fresh s)"
  "fresh (clearTimer h s) = fresh s"
  "fresh (set_ready k st' s) = fresh s"
  "fresh (start_closing k code reason s) = fresh s"
  "fresh (emit ev arg s) = fresh s"
  "fresh (startPingInterval s) = (if pingInterval (config s) > 0 then Suc (fresh s) else fresh s)"
  "fresh (stopPingInterval s) = fresh s"
  "fresh (ping s) = fresh s"
  "fresh (subs_update f s) = fresh s"
  by (simp_all add: eff_def settle_def resolve_def reject_def new_promise_def setTimeout_def
      setInterval_def clearTimer_def set_ready_def ws_close_def start_closing_def emit_eq
      startPingInterval_def stopPingInterval_def ping_def subs_update_def split: option.splits)

lemma grows_refl: "grows s s"
  by (simp add: grows_def)

lemma grows_trans: "grows s s' \<Longrightarrow> grows s' s'' \<Longrightarrow> grows s s''"
  by (simp add: grows_def)

lemma grows_awaiting: "grows s s' \<Longrightarrow> grows s (s'\<lparr>awaiting := a\<rparr>)"
  by (simp add: grows_def)

lemma grows_subscribe: "grows s (snd (subscribe d x y s))"
  by (simp add: grows_def subscribe_def Let_def generateId_def subscriptions_kept fresh_kept
      split: option.splits prod.splits)

lemma grows_resubscribe_loop: "grows s (resubscribe_loop xs s)"
proof (induction xs arbitrary: s)
  case Nil
  show ?case by (simp add: grows_refl)
next
  case (Cons sub rest)
  obtain p s' where e: "subscribe (sd_domain sub) (sd_resource sub) (sd_options sub) s = (p, s')"
    by (cases "subscribe (sd_domain sub) (sd_resource sub) (sd_options sub) s")
  have g: "grows s s'"
    using grows_subscribe [of s "sd_domain sub" "sd_resource sub" "sd_options sub"] e by simp
  show ?case
    using g Cons.IH [of s'] by (auto simp add: e intro: grows_trans grows_awaiting)
qed

lemma grows_foldl_resume:
  "grows s (foldl (\<lambda>s' (p, rest). resubscribe_loop rest s') s rs)"
proof (induction rs arbitrary: s)
  case Nil
  show ?case by (simp add: grows_refl)
next
  case (Cons a rs)
  obtain p rest where a: "a = (p, rest)" by (cases a)
  show ?case
    using Cons.IH [of "resubscribe_loop rest s"] grows_resubscribe_loop [of s rest]
    by (auto simp add: a intro: grows_trans)
qed

lemma grows_run_microtasks: "grows s (run_microtasks s)"
proof -
  have "grows s (s\<lparr>awaiting := filter (\<lambda>(p, rest). promises s p = Pending) (awaiting s)\<rparr>)"
    by (simp add: grows_def)
  then show ?thesis
    unfolding run_microtasks_def Let_def by (rule grows_trans) (rule grows_foldl_resume)
qed

lemmas kept = subscriptions_kept fresh_kept ws_close_def

lemma grows_resubscribeAll: "grows s (resubscribeAll s)"
proof -
  have "grows s (subs_update (\<lambda>_. []) s)"
    by (simp add: grows_def kept)
  then show ?thesis
    unfolding resubscribeAll_def Let_def by (rule grows_trans) (rule grows_resubscribe_loop)
qed

lemma grows_scheduleReconnect: "grows s (scheduleReconnect s)"
  by (simp add: grows_def scheduleReconnect_def Let_def kept)

lemma grows_private_connect: "grows s (snd (private_connect s))"
  by (simp add: grows_def private_connect_def Let_def kept split: option.splits)

lemma grows_connect: "grows s (snd (connect s))"
  using grows_private_connect
          [of "s\<lparr>isConnecting := True, isManualDisconnect := False, reconnectAttempts := 0\<rparr>"]
  by (simp add: grows_def connect_def Let_def kept split: option.splits)

lemma grows_cleanup: "grows s (cleanup s)"
  by (simp add: grows_def cleanup_fields)

lemma grows_disconnect: "grows s (disconnect s)"
  by (simp add: grows_def disconnect_def Let_def cleanup_fields kept split: option.splits)

lemma grows_unsubscribe: "grows s (snd (unsubscribe x s))"
  by (simp add: grows_def unsubscribe_def Let_def kept split: option.splits)

lemma grows_handleMessage: "grows s (handleMessage m s)"
proof (cases m)
  case (connected user_id message system_subscriptions)
  define s1 where
    "s1 = emit ev_connect (ArgMessage m) (s\<lparr>isConnecting := False, userId := Some user_id\<rparr>)"
  define s3 where "s3 = startPingInterval
     (case authResolve s1 of
        None \<Rightarrow> s1
      | Some p \<Rightarrow> (resolve p (VConnected m) s1)\<lparr>authResolve := None, authReject := None\<rparr>)"
  have e: "handleMessage m s =
      (if reconnectAttempts s3 > 0 then resubscribeAll s3 else s3)\<lparr>reconnectAttempts := 0\<rparr>"
    unfolding s3_def s1_def unfolding connected by (simp only: handleMessage.simps Let_def)
  have a: "grows s s3"
    by (simp add: s3_def s1_def grows_def kept split: option.splits)
  have b: "grows s3 (if reconnectAttempts s3 > 0 then resubscribeAll s3 else s3)"
    by (simp add: grows_resubscribeAll grows_refl)
  show ?thesis
    unfolding e using grows_trans [OF a b] by (simp add: grows_def)
qed (simp_all add: grows_def handleSubscriptionConfirmed_def Let_def kept split: option.splits)

lemma grows_onopen: "grows s (onopen k s)"
  by (simp add: grows_def onopen_def Let_def kept ws_send_def split: option.splits ReadyState.splits)

lemma grows_onerror: "grows s (onerror k s)"
  by (simp add: grows_def onerror_def Let_def kept split: option.splits)

lemma grows_after:
  "subscriptions (scheduleReconnect s) = subscriptions s"
  "n \<le> fresh s \<Longrightarrow> n \<le> fresh (scheduleReconnect s)"
  "subscriptions (snd (private_connect s)) = subscriptions s"
  "n \<le> fresh s \<Longrightarrow> n \<le> fresh (snd (private_connect s))"
  using grows_scheduleReconnect [of s] grows_private_connect [of s]
  by (simp_all add: grows_def)

lemma grows_onclose: "grows s (onclose k reason s)"
  by (simp add: grows_def onclose_def Let_def kept grows_after split: option.splits)

lemma grows_fire: "grows s (fire h s)"
  by (simp add: fire_def connectionTimeoutFired_def subscriptionTimeout_def reconnectFired_def
      grows_def kept grows_after Let_def split: option.splits TimerTask.splits)

lemma grows_set_ready: "grows s (set_ready k st s)"
  by (simp add: grows_def kept)

lemma grows_handle: "grows s (handle i s)"
proof (cases i)
  case (SocketMessage k data)
  then show ?thesis
    by (cases data) (simp_all add: onmessage_def grows_handleMessage grows_refl)
next
  case (SocketOpens k)
  then show ?thesis
    using grows_trans [OF grows_set_ready [of s k OPEN] grows_onopen [of _ k]]
    by (simp add: grows_refl)
next
  case (SocketError k)
  then show ?thesis
    using grows_trans [OF grows_set_ready [of s k CLOSED] grows_onerror [of _ k]] by simp
next
  case (SocketCloses k reason)
  then show ?thesis
    using grows_trans [OF grows_set_ready [of s k CLOSED] grows_onclose [of _ k reason]] by simp
next
  case CallGetSubscriptions
  then show ?thesis by (simp add: grows_def getSubscriptions_def)
qed (simp_all add: grows_connect grows_disconnect grows_subscribe grows_unsubscribe grows_fire,
     simp_all add: grows_def on_def off_def sendTypingEvent_def updateConfig_def
       setBearerToken_def kept Let_def split: option.splits)

lemma grows_step: "grows s (step i s)"
  unfolding step_def by (rule grows_trans [OF grows_handle grows_run_microtasks])

lemma foreign_step: "foreign r s \<Longrightarrow> foreign r (step i s)"
  using grows_step [of s i] by (auto simp add: foreign_def grows_def)

lemma with_map_step:
  assumes "foreign r s"
  shows "step i (with_map r tb s) = with_map r tb (step i s)"
proof -
  have "r \<noteq> subscriptions (handle i s)"
    using assms grows_handle [of s i] by (simp add: foreign_def grows_def)
  then show ?thesis
    using assms by (simp add: step_def foreign_def with_map_handle with_map_run_microtasks)
qed

lemma with_map_run:
  "foreign r s \<Longrightarrow> run inputs (with_map r tb s) = with_map r tb (run inputs s)"
proof (induction inputs arbitrary: s)
  case Nil
  show ?case by (simp add: run_Nil)
next
  case (Cons i inputs)
  show ?case
    using Cons.IH [OF foreign_step [OF Cons.prems, of i]] Cons.prems
    by (simp add: run_Cons with_map_step)
qed

lemma foreign_with_map: "foreign r (with_map r' tb s) = foreign r s"
  by (simp add: foreign_def)

lemma with_map_twice: "with_map r tb (with_map r tb' s) = with_map r tb s"
  by (simp add: with_map_def)

lemma mutate_with_map: "mutate r op (with_map r tb s) = with_map r (apply_op op tb) s"
  by (simp add: mutate_def with_map_def)

lemma session_with_map:
  "foreign r s \<Longrightarrow>
   \<exists>tb'. session r actions (with_map r tb s) = with_map r tb' (run (module_inputs actions) s)"
proof (induction actions arbitrary: s tb)
  case Nil
  show ?case by (auto simp add: session_def run_Nil)
next
  case (Cons a actions)
  show ?case
  proof (cases a)
    case (Module i)
    have "session r (a # actions) (with_map r tb s) = session r actions (with_map r tb (step i s))"
      using Cons.prems by (simp add: session_def Module with_map_step)
    then show ?thesis
      using Cons.IH [OF foreign_step [OF Cons.prems, of i], of tb] by (simp add: Module run_Cons)
  next
    case (Caller op)
    have "session r (a # actions) (with_map r tb s) = session r actions (with_map r (apply_op op tb) s)"
      by (simp add: session_def Caller mutate_with_map)
    then show ?thesis
      using Cons.IH [OF Cons.prems, of "apply_op op tb"] by (simp add: Caller)
  qed
qed

lemma with_map_same: "with_map r (maps s r) s = s"
  by (simp add: with_map_def)

lemma run_append: "run (xs @ ys) s = run ys (run xs s)"
  by (simp add: run_def)

lemma grows_run: "grows s (run inputs s)"
proof (induction inputs arbitrary: s)
  case Nil
  show ?case by (simp add: run_Nil grows_refl)
next
  case (Cons i inputs)
  show ?case
    using grows_trans [OF grows_step [of s i] Cons.IH [of "step i s"]] by (simp add: run_Cons)
qed

lemma own_map_allocated:
  "subscriptions (run past (EventsModule_new token cfg ids ctor)) <
   fresh (run past (EventsModule_new token cfg ids ctor))"
  using grows_run [of "EventsModule_new token cfg ids ctor" past]
  by (simp add: grows_def EventsModule_new_def)

lemma getSubscriptions_foreign:
  "subscriptions s < fresh s \<Longrightarrow> foreign (fst (getSubscriptions s)) (snd (getSubscriptions s))"
  by (simp add: foreign_def getSubscriptions_def)

lemma reopened_module_reached:
  "run ([CallConnect, SocketOpens 2, SocketMessage 2 (Some (connected ''u1'' ''welcome'' []))] @
        take 4 example_session @ [SocketCloses 2 [], TimerFires 9, SocketOpens 11])
     (EventsModule_new (Some ''token'') DEFAULT_CONFIG example_ids None) = reopened_module"
  unfolding run_append reopened_module_def two_subscriptions_def connected_module_def
    fresh_module_def by (rule refl)

lemma settled_prims:
  "settled p v s \<Longrightarrow> settled p v (eff e s)"
  "settled p v s \<Longrightarrow> settled p v (settle q st s)"
  "settled p v s \<Longrightarrow> settled p v (resolve q x s)"
  "settled p v s \<Longrightarrow> settled p v (reject q err s)"
  "settled p v s \<Longrightarrow> settled p v (new_promise s)"
  "settled p v s \<Longrightarrow> settled p v (setTimeout task d s)"
  "settled p v s \<Longrightarrow> settled p v (setInterval task d s)"
  "settled p v s \<Longrightarrow> settled p v (clearTimer h s)"
  "settled p v s \<Longrightarrow> settled p v (set_ready k st' s)"
  "settled p v s \<Longrightarrow> settled p v (start_closing k code reason s)"
  "settled p v s \<Longrightarrow> settled p v (emit ev arg s)"
  "settled p v s \<Longrightarrow> settled p v (startPingInterval s)"
  "settled p v s \<Longrightarrow> settled p v (stopPingInterval s)"
  "settled p v s \<Longrightarrow> settled p v (ping s)"
  "settled p v s \<Longrightarrow> settled p v (subs_update f s)"
  by (auto simp add: settled_def eff_def settle_def resolve_def reject_def new_promise_def
      setTimeout_def setInterval_def clearTimer_def set_ready_def ws_close_def start_closing_def emit_eq
      startPingInterval_def stopPingInterval_def ping_def subs_update_def split: option.splits)

lemma settled_updates:
  "settled p v (s\<lparr>config := x1\<rparr>) = settled p v s"
  "settled p v (s\<lparr>ws := x2\<rparr>) = settled p v s"
  "settled p v (s\<lparr>pingIntervalId := x3\<rparr>) = settled p v s"
  "settled p v (s\<lparr>reconnectAttempts := x4\<rparr>) = settled p v s"
  "settled p v (s\<lparr>reconnectTimeoutId := x5\<rparr>) = settled p v s"
  "settled p v (s\<lparr>isConnecting := x6\<rparr>) = settled p v s"
  "settled p v (s\<lparr>isManualDisconnect := x7\<rparr>) = settled p v s"
  "settled p v (s\<lparr>subscriptions := x8\<rparr>) = settled p v s"
  "settled p v (s\<lparr>pendingSubscriptions := x9\<rparr>) = settled p v s"
  "settled p v (s\<lparr>listeners := x10\<rparr>) = settled p v s"
  "settled p v (s\<lparr>userId := x11\<rparr>) = settled p v s"
  "settled p v (s\<lparr>bearerToken := x12\<rparr>) = settled p v s"
  "settled p v (s\<lparr>authResolve := x13\<rparr>) = settled p v s"
  "settled p v (s\<lparr>authReject := x14\<rparr>) = settled p v s"
  "settled p v (s\<lparr>sockets := x15\<rparr>) = settled p v s"
  "settled p v (s\<lparr>timers := x16\<rparr>) = settled p v s"
  "settled p v (s\<lparr>maps := x17\<rparr>) = settled p v s"
  "settled p v (s\<lparr>awaiting := x18\<rparr>) = settled p v s"
  "settled p v (s\<lparr>idStream := x19\<rparr>) = settled p v s"
  "settled p v (s\<lparr>ctorThrows := x20\<rparr>) = settled p v s"
  "settled p v (s\<lparr>effects := x21\<rparr>) = settled p v s"
  by (simp_all add: settled_def)

lemmas settled_simps = settled_prims settled_updates ws_close_def

lemma settled_subscribe: "settled p v s \<Longrightarrow> settled p v (snd (subscribe d x y s))"
  by (simp add: subscribe_def Let_def generateId_def settled_simps split: option.splits prod.splits)

lemma settled_resubscribe_loop: "settled p v s \<Longrightarrow> settled p v (resubscribe_loop xs s)"
proof (induction xs arbitrary: s)
  case Nil
  then show ?case by simp
next
  case (Cons sub rest)
  obtain q s' where e: "subscribe (sd_domain sub) (sd_resource sub) (sd_options sub) s = (q, s')"
    by (cases "subscribe (sd_domain sub) (sd_resource sub) (sd_options sub) s")
  have g: "settled p v s'"
    using settled_subscribe [OF Cons.prems, of "sd_domain sub" "sd_resource sub" "sd_options sub"] e
    by simp
  show ?case
    using g Cons.IH [OF g] by (simp add: e settled_updates)
qed

lemma settled_foldl_resume:
  "settled p v s \<Longrightarrow> settled p v (foldl (\<lambda>s' (q, rest). resubscribe_loop rest s') s rs)"
proof (induction rs arbitrary: s)
  case Nil
  then show ?case by simp
next
  case (Cons a rs)
  obtain q rest where a: "a = (q, rest)" by (cases a)
  show ?case
    using Cons.IH [OF settled_resubscribe_loop [OF Cons.prems, of rest]] by (simp add: a)
qed

lemma settled_run_microtasks: "settled p v s \<Longrightarrow> settled p v (run_microtasks s)"
  unfolding run_microtasks_def Let_def
  by (rule settled_foldl_resume) (simp add: settled_updates)

lemma settled_resubscribeAll: "settled p v s \<Longrightarrow> settled p v (resubscribeAll s)"
  unfolding resubscribeAll_def Let_def
  by (rule settled_resubscribe_loop) (simp add: settled_simps)

lemma settled_scheduleReconnect: "settled p v s \<Longrightarrow> settled p v (scheduleReconnect s)"
  by (simp add: scheduleReconnect_def Let_def settled_simps)

lemma settled_private_connect: "settled p v s \<Longrightarrow> settled p v (snd (private_connect s))"
  by (auto simp add: private_connect_def Let_def settled_def eff_def setTimeout_def reject_def
      settle_def new_promise_def split: option.splits)

lemma settled_connect: "settled p v s \<Longrightarrow> settled p v (snd (connect s))"
  by (simp add: connect_def settled_simps settled_private_connect)

lemma settled_cleanup: "settled p v s \<Longrightarrow> settled p v (cleanup s)"
  by (auto simp add: settled_def cleanup_fields cleanup_promises)

lemma settled_disconnect: "settled p v s \<Longrightarrow> settled p v (disconnect s)"
  by (simp add: disconnect_def Let_def settled_simps settled_cleanup split: option.splits)

lemma settled_unsubscribe: "settled p v s \<Longrightarrow> settled p v (snd (unsubscribe x s))"
  by (simp add: unsubscribe_def Let_def settled_simps split: option.splits)

lemma settled_handleSubscriptionConfirmed:
  "settled p v s \<Longrightarrow> settled p v (handleSubscriptionConfirmed x d y f s)"
  by (simp add: handleSubscriptionConfirmed_def Let_def settled_simps split: option.splits)

lemma settled_handleMessage: "settled p v s \<Longrightarrow> settled p v (handleMessage m s)"
  by (cases m)
     (simp_all add: Let_def settled_simps settled_handleSubscriptionConfirmed
        settled_resubscribeAll split: option.splits)

lemma settled_onopen: "settled p v s \<Longrightarrow> settled p v (onopen k s)"
  by (simp add: onopen_def Let_def settled_simps ws_send_def split: option.splits ReadyState.splits)

lemma settled_onerror: "settled p v s \<Longrightarrow> settled p v (onerror k s)"
  by (simp add: onerror_def Let_def settled_simps split: option.splits)

lemma settled_onclose: "settled p v s \<Longrightarrow> settled p v (onclose k reason s)"
  by (simp add: onclose_def Let_def settled_simps settled_scheduleReconnect split: option.splits)

lemma settled_fire: "settled p v s \<Longrightarrow> settled p v (fire h s)"
  by (simp add: fire_def connectionTimeoutFired_def subscriptionTimeout_def reconnectFired_def
      settled_simps settled_private_connect split: option.splits TimerTask.splits)

lemma settled_handle: "settled p v s \<Longrightarrow> settled p v (handle i s)"
proof (cases i)
  case (SocketMessage k data)
  assume "settled p v s"
  then show ?thesis
    by (cases data) (simp_all add: SocketMessage onmessage_def settled_handleMessage)
next
  case CallGetSubscriptions
  assume "settled p v s"
  then show ?thesis
    by (simp add: CallGetSubscriptions getSubscriptions_def settled_def)
qed (simp_all add: settled_connect settled_disconnect settled_subscribe settled_unsubscribe
      on_def off_def sendTypingEvent_def settled_simps updateConfig_def
      setBearerToken_def settled_onopen settled_onerror settled_onclose settled_fire Let_def
      split: option.splits)

lemma settled_step: "settled p v s \<Longrightarrow> settled p v (step i s)"
  unfolding step_def by (rule settled_run_microtasks) (rule settled_handle)

lemma settled_run: "settled p v s \<Longrightarrow> settled p v (run inputs s)"
proof (induction inputs arbitrary: s)
  case Nil
  then show ?case by (simp add: run_Nil)
next
  case (Cons i inputs)
  show ?case
    using Cons.IH [OF settled_step [OF Cons.prems, of i]] by (simp add: run_Cons)
qed

lemma subscribe_old_promises:
  "fresh s \<le> fresh (snd (subscribe d x y s)) \<and>
   (\<forall>p<fresh s. promises (snd (subscribe d x y s)) p = promises s p)"
  by (simp add: subscribe_def Let_def generateId_def new_promise_def reject_def settle_def eff_def
      setTimeout_def split: option.splits prod.splits)

lemma resubscribe_loop_old_promises:
  "fresh s \<le> fresh (resubscribe_loop xs s) \<and>
   (\<forall>p<fresh s. promises (resubscribe_loop xs s) p = promises s p)"
proof (induction xs arbitrary: s)
  case Nil
  show ?case by simp
next
  case (Cons sub rest)
  obtain q s' where e: "subscribe (sd_domain sub) (sd_resource sub) (sd_options sub) s = (q, s')"
    by (cases "subscribe (sd_domain sub) (sd_resource sub) (sd_options sub) s")
  have g: "fresh s \<le> fresh s' \<and> (\<forall>p<fresh s. promises s' p = promises s p)"
    using subscribe_old_promises [of s "sd_domain sub" "sd_resource sub" "sd_options sub"] e
    by simp
  show ?case
    using g Cons.IH [of s'] by (auto simp add: e)
qed

lemma foldl_resume_old_promises:
  "fresh s \<le> fresh (foldl (\<lambda>s' (q, rest). resubscribe_loop rest s') s rs) \<and>
   (\<forall>p<fresh s. promises (foldl (\<lambda>s' (q, rest). resubscribe_loop rest s') s rs) p = promises s p)"
proof (induction rs arbitrary: s)
  case Nil
  show ?case by simp
next
  case (Cons a rs)
  obtain q rest where a: "a = (q, rest)" by (cases a)
  show ?case
    using Cons.IH [of "resubscribe_loop rest s"] resubscribe_loop_old_promises [of s rest]
    by (auto simp add: a)
qed

lemma run_microtasks_old_promises:
  "p < fresh s \<Longrightarrow> promises (run_microtasks s) p = promises s p"
  using foldl_resume_old_promises
    [of "s\<lparr>awaiting := filter (\<lambda>(p, rest). promises s p = Pending) (awaiting s)\<rparr>"
        "filter (\<lambda>(p, rest). promises s p \<noteq> Pending) (awaiting s)"]
  by (simp add: run_microtasks_def Let_def)

lemma settled_value: "settled p v s \<Longrightarrow> promises s p = v"
  by (simp add: settled_def)

lemma confirmation_settles:
  assumes "pending_subscribe x p s"
  shows "settled p (Fulfilled (VSubscription (Subscription x d r f)))
           (handleSubscriptionConfirmed x d r f s)"
  using assms
  by (auto simp add: pending_subscribe_def handleSubscriptionConfirmed_def Let_def settled_def
      emit_eq resolve_def settle_def eff_def subs_update_def)

lemma timeout_settles:
  assumes "pending_subscribe x p s" "timers s h = Some (SubscriptionTimeoutTask x p)"
  shows "settled p (Rejected (Error ''Subscription timeout'')) (fire h s)"
  using assms
  by (auto simp add: pending_subscribe_def fire_def subscriptionTimeout_def settled_def
      reject_def settle_def eff_def)

lemma disconnect_settles:
  assumes "pending_subscribe x p s"
  shows "settled p (Rejected (Error ''Connection closed'')) (disconnect s)"
proof -
  from assms obtain pd where pd: "map_of (pendingSubscriptions s) x = Some pd" "pd_promise pd = p"
    by (auto simp add: pending_subscribe_def)
  then have "(x, pd) \<in> set (pendingSubscriptions s)"
    by (simp add: map_of_SomeD)
  then have "p \<in> set (map (pd_promise \<circ> snd) (pendingSubscriptions s))"
    using pd(2) by force
  moreover have "fresh (disconnect s) = fresh s"
    by (simp add: disconnect_def Let_def cleanup_fields ws_close_def start_closing_def eff_def set_ready_def
        split: option.splits)
  ultimately show ?thesis
    using assms by (simp add: settled_def disconnect_promises pending_subscribe_def)
qed

lemma scheduleReconnect_promises:
  "promises (scheduleReconnect s) = promises s" "fresh s \<le> fresh (scheduleReconnect s)"
  by (simp_all add: scheduleReconnect_def Let_def emit_eq setTimeout_def eff_def)

lemma close_spares_subscribe:
  assumes "authReject s \<noteq> Some p"
  shows "promises (handle (SocketCloses k reason) s) p = promises s p \<and>
         fresh s \<le> fresh (handle (SocketCloses k reason) s)"
  using assms
  by (auto simp add: onclose_def Let_def scheduleReconnect_promises set_ready_def clearTimer_def
      stopPingInterval_def reject_def settle_def eff_def emit_eq split: option.splits
      intro: order_trans [OF _ scheduleReconnect_promises(2)])

lemma settle_calls_simps [simp]:
  "settle_calls p [] = []"
  "settle_calls p (es @ es') = settle_calls p es @ settle_calls p es'"
  "settle_calls p (e # es) = (if settlement p e then e # settle_calls p es else settle_calls p es)"
  by (simp_all add: settle_calls_def)

lemma settle_calls_listeners [simp]: "settle_calls p (listener_trace ev arg cbs) = []"
  by (induction cbs) (simp_all add: listener_effects_def split: option.splits)

lemma late_close:
  assumes "authReject s = None"
  shows "settle_calls q (effects (handle (SocketCloses k reason) s)) = settle_calls q (effects s)"
  using assms
  by (simp add: onclose_def Let_def scheduleReconnect_def set_ready_def clearTimer_def
      stopPingInterval_def eff_def emit_eq setTimeout_def split: option.splits)

lemma step_settles: "settled p v (handle i s) \<Longrightarrow> promises (step i s) p = v"
  unfolding step_def by (rule settled_value) (rule settled_run_microtasks)

lemma subscribed_module_request:
  "fresh subscribed_module = 7" "sockets subscribed_module 2 = Some (Socket OPEN 3 1)"
  "authReject subscribed_module = None"
  by (simp_all add: subscribed_module_def connected_module_eq model_defs registry_defs
      eval_nat_numeral)




text \<open>
  What \<^verbatim>\<open>disconnect()\<close> does in any state: a second call changes nothing; the closure
  is flagged as voluntary, and a close event that is the next input arms no reconnect
  timer; the keep-alive interval and the reconnect timer whose handles the module holds
  are cleared; every pending subscription request is rejected with ``Connection closed''
  and the pending table emptied; the socket, if there is one, is closed with code 1000
  and forgotten.
\<close>

lemma disconnect_summary:
  fixes reason :: string
  shows "disconnect (disconnect s) = disconnect s \<and>
   isManualDisconnect (disconnect s) \<and>
   reconnect_delays (effects (step (SocketCloses k reason) (disconnect s))) =
     reconnect_delays (effects (disconnect s)) \<and>
   reconnectAttempts (step (SocketCloses k reason) (disconnect s)) = reconnectAttempts s \<and>
   pingIntervalId (disconnect s) = None \<and> reconnectTimeoutId (disconnect s) = None \<and>
   (pingIntervalId s = Some h \<or> reconnectTimeoutId s = Some h \<longrightarrow>
      timers (disconnect s) h = None \<and> ClearTimer h \<in> set (effects (disconnect s))) \<and>
   pendingSubscriptions (disconnect s) = [] \<and>
   ((subscriptionId, pending) \<in> set (pendingSubscriptions s) \<longrightarrow>
      Reject (pd_promise pending) (Error ''Connection closed'') \<in> set (effects (disconnect s)) \<and>
      promises (disconnect s) (pd_promise pending) \<noteq> Pending \<and>
      (promises s (pd_promise pending) = Pending \<longrightarrow>
         promises (disconnect s) (pd_promise pending) = Rejected (Error ''Connection closed''))) \<and>
   ws (disconnect s) = None \<and>
   (ws s = Some j \<longrightarrow>
      last (effects (disconnect s)) = WsClose j (Some 1000) ''Client disconnect'' \<and>
      (ready s j = CONNECTING \<or> ready s j = OPEN \<longrightarrow> ready (disconnect s) j = CLOSING))"
proof -
  have idem: "disconnect (disconnect s) = disconnect s"
    by (rule disconnect_noop) (simp_all add: disconnect_fields)
  note close = manual_close_schedules_nothing[OF disconnect_fields(1)[of s] disconnect_fields(5)[of s],
      where k = k and reason = reason]
  have tm: "pingIntervalId s = Some h \<or> reconnectTimeoutId s = Some h \<longrightarrow>
      timers (disconnect s) h = None \<and> ClearTimer h \<in> set (effects (disconnect s))"
    by (auto simp: disconnect_timers disconnect_effects)
  have pd: "(subscriptionId, pending) \<in> set (pendingSubscriptions s) \<longrightarrow>
      Reject (pd_promise pending) (Error ''Connection closed'') \<in> set (effects (disconnect s)) \<and>
      promises (disconnect s) (pd_promise pending) \<noteq> Pending \<and>
      (promises s (pd_promise pending) = Pending \<longrightarrow>
         promises (disconnect s) (pd_promise pending) = Rejected (Error ''Connection closed''))"
    by (force simp: disconnect_promises disconnect_effects)
  have wsj: "ws s = Some j \<longrightarrow>
      last (effects (disconnect s)) = WsClose j (Some 1000) ''Client disconnect'' \<and>
      (ready s j = CONNECTING \<or> ready s j = OPEN \<longrightarrow> ready (disconnect s) j = CLOSING)"
    by (simp add: disconnect_effects disconnect_ready)
  show ?thesis
    using idem close tm pd wsj by (simp add: disconnect_fields)
qed










lemma connected_module_reached:
  "run [CallConnect, SocketOpens 2, SocketMessage 2 (Some (connected ''u1'' ''welcome'' []))]
     (EventsModule_new (Some ''token'') DEFAULT_CONFIG example_ids None) = connected_module"
  by (simp add: connected_module_def fresh_module_def)

lemma twice_lost_module_fields:
  "timers twice_lost_module 5 = Some ReconnectTask"
  "timers twice_lost_module 9 = Some ReconnectTask"
  "reconnectTimeoutId twice_lost_module = Some 9"
  "pingIntervalId twice_lost_module = None"
  "ctorThrows twice_lost_module = None"
  "fresh twice_lost_module = 10"
  "awaiting twice_lost_module = []"
  "pendingSubscriptions twice_lost_module = []"
  "ws twice_lost_module = Some 7"
  by (simp_all add: twice_lost_module_def connected_module_eq model_defs registry_defs
      connection_defs eval_nat_numeral)

lemma disconnect_more_fields:
  "ctorThrows (disconnect s) = ctorThrows s" "fresh (disconnect s) = fresh s"
  by (simp_all add: disconnect_def Let_def cleanup_fields ws_close_def start_closing_def eff_def
      set_ready_def split: option.splits)

lemma close_event_calls:
  assumes "authReject s \<noteq> Some p"
  shows "settle_calls p (effects (handle (SocketCloses k reason) s)) = settle_calls p (effects s)"
    and "pendingSubscriptions (handle (SocketCloses k reason) s) = pendingSubscriptions s"
  using assms
  by (simp_all add: onclose_def Let_def scheduleReconnect_def set_ready_def clearTimer_def
      stopPingInterval_def eff_def emit_eq setTimeout_def reject_def settle_def
      split: option.splits)

section \<open>The claims\<close>

text \<open>
  C9. \<^verbatim>\<open>_emit\<close> never throws, whatever the listeners do: every listener registered for
  the event is invoked, once and in registration order, each exception is caught and
  written to the console, and the message path that emitted the event goes on.
\<close>

theorem emit_isolates_listeners:
  "fst (emit_outcome ev arg s) = None \<and>
   emit ev arg s = s\<lparr>effects := effects s @ listener_trace ev arg (registered s ev)\<rparr> \<and>
   invoked (listener_trace ev arg (registered s ev)) = map cb_id (registered s ev) \<and>
   logged (listener_trace ev arg (registered s ev)) = thrown arg (registered s ev) \<and>
   onmessage (Some (notification n)) s = emit ev_notification (ArgMessage (notification n)) s"
  by (simp add: emit_outcome_eq emit_eq invoked_listener_trace logged_listener_trace onmessage_def)

text \<open>
  C1. When an involuntary close finds automatic reconnection enabled and the attempt
  number \<open>n = reconnectAttempts + 1\<close> within \<open>maxReconnectAttempts\<close>, the counter is
  set to \<open>n\<close> first and the reconnect timer is then armed (not yet fired) with the
  delay \<open>min (reconnectDelay * 2^(n-1)) maxReconnectDelay\<close>. That delay never exceeds
  \<open>maxReconnectDelay\<close>, and for a base delay that is not negative it does not decrease
  from one attempt to the next.
\<close>

theorem reconnect_delay_is_capped_exponential:
  fixes reason :: string
  assumes "retrying s"
    and "int (Suc (reconnectAttempts s)) \<le> maxReconnectAttempts (config s)"
  shows "reconnectAttempts (socket_lost reason s) = Suc (reconnectAttempts s) \<and>
    (case reconnectTimeoutId (socket_lost reason s) of
       None \<Rightarrow> False
     | Some h \<Rightarrow> timers (socket_lost reason s) h = Some ReconnectTask) \<and>
    reconnect_delays (effects (socket_lost reason s)) =
      reconnect_delays (effects s) @
      [min (reconnectDelay (config s) * 2 ^ (Suc (reconnectAttempts s) - 1))
           (maxReconnectDelay (config s))] \<and>
    backoff (config s) n = min (reconnectDelay (config s) * 2 ^ (n - 1)) (maxReconnectDelay (config s)) \<and>
    backoff (config s) n \<le> maxReconnectDelay (config s) \<and>
    (0 \<le> reconnectDelay (config s) \<longrightarrow> backoff (config s) n \<le> backoff (config s) (Suc n))"
proof -
  have lt: "int (reconnectAttempts s) < maxReconnectAttempts (config s)" using assms(2) by simp
  show ?thesis
    using socket_lost_step[OF assms(1), of reason] lt backoff_capped[of "config s" n]
      backoff_mono[of "config s" n]
    by (simp add: backoff_def)
qed

theorem reconnect_delay_witness:
  "retrying connected_module \<and>
   int (Suc (reconnectAttempts connected_module)) \<le> maxReconnectAttempts (config connected_module) \<and>
   reconnectAttempts (socket_lost [] connected_module) = 1 \<and>
   reconnect_delays (effects (socket_lost [] connected_module)) = [1000] \<and>
   backoff (config connected_module) 5 = 16000 \<and>
   backoff (config connected_module) 6 = 30000 \<and>
   0 \<le> reconnectDelay (config connected_module) \<and>
   backoff (config connected_module) 5 \<le> backoff (config connected_module) 6"
proof -
  have h: "int (Suc (reconnectAttempts connected_module)) \<le> maxReconnectAttempts (config connected_module)"
    by (simp add: connected_module_fields DEFAULT_CONFIG_def)
  show ?thesis
    using reconnect_delay_is_capped_exponential[OF connected_module_retrying h, of "[]" 5]
    by (simp add: connected_module_fields DEFAULT_CONFIG_def connected_module_retrying backoff_def)
qed

text \<open>
  C2. A module that retries (automatic reconnection on, no manual disconnect) starts with
  the counter at zero and \<open>maxReconnectAttempts = N\<close>; its socket is lost again and
  again, each loss followed by the reconnect timer firing if it is armed. Whatever the
  number of losses, the reconnect timers armed are exactly those of the attempts
  \<open>1 .. min losses N\<close>, with the backoff delays; the losses beyond the \<open>N\<close>-th arm no
  timer and emit one \<^verbatim>\<open>error\<close> event each (Max reconnect attempts reached) to the
  registered listeners. After a manual \<^verbatim>\<open>connect()\<close> the next loss arms attempt 1 again.
\<close>

theorem reconnect_attempts_are_bounded:
  fixes reason :: string
  assumes "retrying s" and "reconnectAttempts s = 0"
    and "maxReconnectAttempts (config s) = int N"
  shows "reconnect_delays (effects (outage reasons s)) =
      reconnect_delays (effects s) @ map (backoff (config s)) [1 ..< Suc (min (length reasons) N)] \<and>
    error_events (effects (outage reasons s)) =
      error_events (effects s) @ concat (replicate (length reasons - N) (max_errors s)) \<and>
    reconnectAttempts (outage reasons s) = min (length reasons) N \<and>
    (reasons \<noteq> [] \<and> 0 < N \<longrightarrow>
      reconnect_delays (effects (socket_lost reason (step CallConnect (outage reasons s)))) =
        reconnect_delays (effects (outage reasons s)) @ [backoff (config s) 1])"
proof -
  have le: "reconnectAttempts s \<le> N" using assms(2) by simp
  note run = outage_run[OF assms(1) assms(3) le, of reasons, unfolded assms(2)]
  have later: "reconnect_delays (effects (socket_lost reason (step CallConnect (outage reasons s)))) =
        reconnect_delays (effects (outage reasons s)) @ [backoff (config s) 1]"
    if ne: "reasons \<noteq> []" and pos: "0 < N"
  proof -
    have r: "retrying (outage reasons s)" using run by simp
    have idle: "\<not> ws_open (outage reasons s)" "\<not> isConnecting (outage reasons s)"
      using outage_idle[OF assms(1), of reasons] ne by simp_all
    note m = manual_connect_resumes[OF r idle]
    then have r': "retrying (step CallConnect (outage reasons s))" by simp
    have lt: "int (reconnectAttempts (step CallConnect (outage reasons s))) <
        maxReconnectAttempts (config (step CallConnect (outage reasons s)))"
      using m run pos assms(3) by simp
    show ?thesis
      using socket_lost_step[OF r', of reason] lt m run by simp
  qed
  show ?thesis using run later by (simp del: upt_Suc)
qed

theorem reconnect_attempts_witness:
  "retrying observed_module \<and> reconnectAttempts observed_module = 0 \<and>
   maxReconnectAttempts (config observed_module) = int 5 \<and>
   reconnect_delays (effects (outage (replicate 7 []) observed_module)) =
     [1000, 2000, 4000, 8000, 16000] \<and>
   error_events (effects (outage (replicate 7 []) observed_module)) =
     [(7, Error ''Max reconnect attempts reached''), (7, Error ''Max reconnect attempts reached'')] \<and>
   reconnectAttempts (outage (replicate 7 []) observed_module) = 5 \<and>
   reconnect_delays (effects (socket_lost [] (step CallConnect (outage (replicate 7 []) observed_module)))) =
     [1000, 2000, 4000, 8000, 16000, 1000]"
proof -
  have h: "maxReconnectAttempts (config observed_module) = int 5"
    by (simp add: observed_module_fields DEFAULT_CONFIG_def)
  have u: "[Suc 0..<6] = [Suc 0, 2, 3, 4, 5]" by (simp add: upt_rec)
  show ?thesis
    using reconnect_attempts_are_bounded[OF observed_module_fields(6) observed_module_fields(2) h,
        of "replicate 7 []" "[]"]
    by (simp add: observed_module_fields DEFAULT_CONFIG_def backoff_def u numeral_2_eq_2
          del: upt_Suc)
qed




text \<open>
  C4. From a state with no reconnection under way, along every sequence of inputs that
  leaves the connection alone (method calls other than \<^verbatim>\<open>connect\<close>/\<^verbatim>\<open>disconnect\<close>,
  inbound frames, subscription timeouts and pings), the module's two tables follow the
  ledger of the registry: a request is outstanding from its \<^verbatim>\<open>subscribe\<close> call until its
  confirmation or its timeout; the durable table gains an entry exactly when a
  \<^verbatim>\<open>subscription_confirmed\<close> frame finds its request outstanding, and loses an entry on
  \<^verbatim>\<open>unsubscribe\<close> (at the call, in the step that sends the frame) and on an
  \<^verbatim>\<open>unsubscribed\<close> frame.
\<close>

theorem durable_table_tracks_confirmed_subscriptions:
  assumes "settled_session s" and "connected_run inputs s"
  shows "map_of (subs (run inputs s)) = snd (ledger_run inputs s (ledger_of s)) \<and>
    map_option pd_data \<circ> map_of (pendingSubscriptions (run inputs s)) =
      fst (ledger_run inputs s (ledger_of s)) \<and>
    (delivered k s \<longrightarrow>
       subs (step (SocketMessage k (Some (subscription_confirmed x d r f))) s) =
         (case map_of (pendingSubscriptions s) x of
            None \<Rightarrow> subs s
          | Some pending \<Rightarrow> AList.update x (pd_data pending) (subs s))) \<and>
    (ws s = Some k \<and> ready s k = OPEN \<longrightarrow>
       subs (step (CallUnsubscribe x) s) = AList.delete x (subs s) \<and>
       effects (step (CallUnsubscribe x) s) =
         effects s @ [WsSend k (unsubscribe_frame x), Resolve (fresh s) VVoid])"
proof -
  note r = run_registry[OF assms]
  have a: "awaiting s = []" using assms(1) by (simp add: settled_session_def)
  have c: "subs (step (SocketMessage k (Some (subscription_confirmed x d r f))) s) =
         (case map_of (pendingSubscriptions s) x of
            None \<Rightarrow> subs s
          | Some pending \<Rightarrow> AList.update x (pd_data pending) (subs s))" if "delivered k s"
  proof -
    have h: "handle (SocketMessage k (Some (subscription_confirmed x d r f))) s =
        handleSubscriptionConfirmed x d r f s"
      using that by (simp add: delivered_def onmessage_def)
    have "awaiting (handleSubscriptionConfirmed x d r f s) = []"
      using handleSubscriptionConfirmed_registry[of x d r f s] a by simp
    then have "step (SocketMessage k (Some (subscription_confirmed x d r f))) s =
        handleSubscriptionConfirmed x d r f s"
      using h step_no_await[of "SocketMessage k (Some (subscription_confirmed x d r f))" s] by simp
    then show ?thesis
      by (simp add: handleSubscriptionConfirmed_def resolve_eq emit_eq subs_def subs_update_def Let_def
          split: option.splits)
  qed
  have u: "subs (step (CallUnsubscribe x) s) = AList.delete x (subs s) \<and>
       effects (step (CallUnsubscribe x) s) =
         effects s @ [WsSend k (unsubscribe_frame x), Resolve (fresh s) VVoid]"
    if "ws s = Some k \<and> ready s k = OPEN"
  proof -
    have "awaiting (handle (CallUnsubscribe x) s) = []"
      using unsubscribe_registry[of x s] a by simp
    then have "step (CallUnsubscribe x) s = snd (unsubscribe x s)"
      using step_no_await[of "CallUnsubscribe x" s] by simp
    then show ?thesis using that
      by (simp add: unsubscribe_def ready_def new_promise_def resolve_eq eff_def subs_def
          subs_update_def Let_def)
  qed
  have eq: "ledger_run inputs s (ledger_of s) = ledger_of (run inputs s)" using r by simp
  show ?thesis using c u by (simp add: eq) (simp add: ledger_of_def)
qed

theorem durable_table_witness:
  "settled_session connected_module \<and> connected_run example_session connected_module \<and>
   snd (ledger_run example_session connected_module (ledger_of connected_module)) =
     [''ii'' \<mapsto> SubscriptionData ''trip'' ''itinerary'' None] \<and>
   fst (ledger_run example_session connected_module (ledger_of connected_module)) = Map.empty \<and>
   delivered 2 connected_module \<and> ws connected_module = Some 2 \<and> ready connected_module 2 = OPEN \<and>
   subs (step (CallUnsubscribe ''i'') connected_module) = []"
proof -
  have h: "settled_session connected_module"
    by (simp add: settled_session_def connected_module_fields)
  have d: "delivered 2 connected_module" "ready connected_module 2 = OPEN"
    "subs connected_module = []"
    by (simp_all add: delivered_def ready_def connected_module_fields subs_def connected_module_def
        fresh_module_def model_defs)
  note t = durable_table_tracks_confirmed_subscriptions[OF h example_session_run(1), of 2 "''i''"]
  have l: "snd (ledger_run example_session connected_module (ledger_of connected_module)) =
      map_of (subs (run example_session connected_module))"
    "fst (ledger_run example_session connected_module (ledger_of connected_module)) =
      map_option pd_data \<circ> map_of (pendingSubscriptions (run example_session connected_module))"
    using t by simp_all
  have u: "subs (step (CallUnsubscribe ''i'') connected_module) = AList.delete ''i'' (subs connected_module)"
    using t d by (simp add: connected_module_fields)
  show ?thesis
    using h d by (simp add: l u example_session_run connected_module_fields fun_eq_iff)
qed




text \<open>
  C10. In every state that a module can reach from its construction, \<^verbatim>\<open>getSubscriptions()\<close>
  returns a Map object that did not exist before, distinct from the module's own table,
  with the entries the table has at the call; the call changes nothing else. From then on,
  whatever the caller does to the returned Map (\<^verbatim>\<open>set\<close>, \<^verbatim>\<open>delete\<close>, \<^verbatim>\<open>clear\<close>, at any
  moments between later calls and events), the module goes through the states it would go
  through without these operations, the content of the returned object apart: the same
  durable table, the same frames sent, timers armed, promises settled and listeners
  called, also in a resubscription replay. Entries are the values \<open>(domain, resource,
  options)\<close>; the theorem is about the operations of the Map object.
\<close>

theorem getSubscriptions_returns_fresh_copy:
  fixes past :: "Input list" and actions :: "Action list"
    and token :: "string option" and cfg :: EventsModuleConfig and ids :: "nat \<Rightarrow> string"
    and ctor :: "js_error option"
  defines "s \<equiv> run past (EventsModule_new token cfg ids ctor)"
  defines "r \<equiv> fst (getSubscriptions s)" and "s' \<equiv> snd (getSubscriptions s)"
  shows "fresh s \<le> r \<and> r \<noteq> subscriptions s \<and> maps s' r = subs s \<and>
     s' = s\<lparr>maps := (maps s)(r := subs s), fresh := Suc (fresh s)\<rparr> \<and>
     subs (session r actions s') = subs (run (module_inputs actions) s') \<and>
     effects (session r actions s') = effects (run (module_inputs actions) s') \<and>
     with_map r [] (session r actions s') = with_map r [] (run (module_inputs actions) s')"
proof -
  have own: "subscriptions s < fresh s"
    unfolding s_def by (rule own_map_allocated)
  have f: "foreign r s'"
    unfolding r_def s'_def using own by (rule getSubscriptions_foreign)
  from session_with_map [OF f, of actions "maps s' r"] obtain tb' where
    e: "session r actions s' = with_map r tb' (run (module_inputs actions) s')"
    by (auto simp add: with_map_same)
  have "foreign r (run (module_inputs actions) s')"
    using f grows_run [of s' "module_inputs actions"] by (auto simp add: foreign_def grows_def)
  then have n: "r \<noteq> subscriptions (run (module_inputs actions) s')"
    by (simp add: foreign_def)
  have a: "fresh s \<le> r \<and> r \<noteq> subscriptions s \<and> maps s' r = subs s \<and>
     s' = s\<lparr>maps := (maps s)(r := subs s), fresh := Suc (fresh s)\<rparr>"
    using own by (auto simp add: r_def s'_def getSubscriptions_def subs_def)
  have b: "subs (session r actions s') = subs (run (module_inputs actions) s')"
    unfolding e using n by simp
  have c: "effects (session r actions s') = effects (run (module_inputs actions) s')"
    unfolding e by simp
  have d: "with_map r [] (session r actions s') = with_map r [] (run (module_inputs actions) s')"
    unfolding e by (rule with_map_twice)
  show ?thesis
    using a b c d by simp
qed

theorem getSubscriptions_witness:
  "fst (getSubscriptions reopened_module) = 13 \<and> subscriptions reopened_module = 0 \<and>
   maps (snd (getSubscriptions reopened_module)) 13 =
     [(''i'', SubscriptionData ''chat'' ''message'' None),
      (''ii'', SubscriptionData ''trip'' ''itinerary'' None)] \<and>
   maps (session 13 [Caller MapClear] (snd (getSubscriptions reopened_module))) 13 = [] \<and>
   subs (session 13 [Caller MapClear] (snd (getSubscriptions reopened_module))) =
     [(''i'', SubscriptionData ''chat'' ''message'' None),
      (''ii'', SubscriptionData ''trip'' ''itinerary'' None)] \<and>
   subscribe_requests (effects (session 13
       [Caller MapClear, Module (SocketMessage 11 (Some (connected ''u1'' ''welcome'' [])))]
       (snd (getSubscriptions reopened_module)))) =
     [(''chat'', ''message'', SubscriptionFilters None None None None, False),
      (''trip'', ''itinerary'', SubscriptionFilters None None None None, False),
      (''chat'', ''message'', SubscriptionFilters None None None None, False)]"
proof -
  note t = getSubscriptions_returns_fresh_copy
    [where past = "[CallConnect, SocketOpens 2, SocketMessage 2 (Some (connected ''u1'' ''welcome'' []))] @
        take 4 example_session @ [SocketCloses 2 [], TimerFires 9, SocketOpens 11]"
      and token = "Some ''token''" and cfg = DEFAULT_CONFIG and ids = example_ids and ctor = None,
      unfolded reopened_module_reached]
  have r: "fst (getSubscriptions reopened_module) = 13"
    by (simp add: getSubscriptions_def reopened_module_eq)
  show ?thesis
    using t [of "[Caller MapClear]"]
      t [of "[Caller MapClear, Module (SocketMessage 11 (Some (connected ''u1'' ''welcome'' [])))]"]
    unfolding r
    by (simp add: reopened_module_eq getSubscriptions_def session_def mutate_def model_defs
        registry_defs eval_nat_numeral)
qed

text \<open>
  C6. \<^verbatim>\<open>connect()\<close> is called on an idle module that holds no token (\<^verbatim>\<open>null\<close> or the
  empty string) and can create its socket \<open>k\<close>; no resubscription loop is suspended.
  Neither the call nor the opening of the socket sends a frame. When the socket opens,
  \<^verbatim>\<open>onopen\<close> clears the connection timer and forgets the \<^verbatim>\<open>resolve\<close> and \<^verbatim>\<open>reject\<close> of
  the promise; then \<^verbatim>\<open>close(1008, ...)\<close> is refused with an \<^verbatim>\<open>InvalidAccessError\<close>, which
  ends the callback before \<^verbatim>\<open>reject(...)\<close>. The socket is not closed: it stays open and
  remains the module's socket. The promise is not rejected: it is still pending, no
  \<^verbatim>\<open>resolve\<close> or \<^verbatim>\<open>reject\<close> has been called for it, its timer can no longer fire, and it
  is still pending after the close event of the socket.
\<close>

theorem connect_without_token_is_not_rejected:
  fixes reason :: string
  assumes "\<not> truthy (bearerToken s)"
    and "\<not> ws_open s" and "\<not> isConnecting s" and "ctorThrows s = None" and "awaiting s = []"
  shows "sent_frames (effects (step CallConnect s)) = sent_frames (effects s) \<and>
    effects (step (SocketOpens (Suc (fresh s))) (step CallConnect s)) =
      effects (step CallConnect s) @
      [ClearTimer (Suc (Suc (fresh s))), Uncaught (Error ''InvalidAccessError'')] \<and>
    ws (step (SocketOpens (Suc (fresh s))) (step CallConnect s)) = Some (Suc (fresh s)) \<and>
    ready (step (SocketOpens (Suc (fresh s))) (step CallConnect s)) (Suc (fresh s)) = OPEN \<and>
    promises (step (SocketOpens (Suc (fresh s))) (step CallConnect s)) (fresh s) = Pending \<and>
    authReject (step (SocketOpens (Suc (fresh s))) (step CallConnect s)) = None \<and>
    settle_calls (fresh s) (effects (step (SocketOpens (Suc (fresh s))) (step CallConnect s))) =
      settle_calls (fresh s) (effects s) \<and>
    step (TimerFires (Suc (Suc (fresh s)))) (step (SocketOpens (Suc (fresh s))) (step CallConnect s)) =
      step (SocketOpens (Suc (fresh s))) (step CallConnect s) \<and>
    promises (step (SocketCloses (Suc (fresh s)) reason)
      (step (SocketOpens (Suc (fresh s))) (step CallConnect s))) (fresh s) = Pending \<and>
    settle_calls (fresh s) (effects (step (SocketCloses (Suc (fresh s)) reason)
      (step (SocketOpens (Suc (fresh s))) (step CallConnect s)))) = settle_calls (fresh s) (effects s)"
proof -
  define t where "t = step CallConnect s"
  note ceq = connect_idle_eq[OF assms(2-4)]
  have "step CallConnect s = handle CallConnect s"
    by (rule step_idle) (simp add: ceq assms(5))
  then have t: "t = snd (connect s)" by (simp add: t_def)
  have tf: "ws t = Some (Suc (fresh s))"
    "sockets t (Suc (fresh s)) = Some (Socket CONNECTING (Suc (Suc (fresh s))) (fresh s))"
    "promises t (fresh s) = Pending" "bearerToken t = bearerToken s" "awaiting t = []"
    "sent_frames (effects t) = sent_frames (effects s)"
    "settle_calls (fresh s) (effects t) = settle_calls (fresh s) (effects s)"
    "fresh t = Suc (Suc (Suc (fresh s)))"
    unfolding t ceq by (simp_all add: assms(5))
  have nt: "\<not> truthy (bearerToken t)" using assms(1) by (simp add: tf)
  define u where "u = step (SocketOpens (Suc (fresh s))) t"
  note heq = onopen_no_token[OF tf(2) tf(1) nt]
  have uh: "u = handle (SocketOpens (Suc (fresh s))) t"
    unfolding u_def by (rule step_idle) (simp add: heq tf del: handle.simps)
  note ueq = heq[folded uh]
  have uf: "effects u = effects t @ [ClearTimer (Suc (Suc (fresh s))), Uncaught (Error ''InvalidAccessError'')]"
    "ws u = Some (Suc (fresh s))" "ready u (Suc (fresh s)) = OPEN"
    "promises u (fresh s) = Pending" "authReject u = None" "awaiting u = []"
    "timers u (Suc (Suc (fresh s))) = None" "fresh u = fresh t"
    unfolding ueq by (simp_all add: tf ready_def)
  have fired: "step (TimerFires (Suc (Suc (fresh s)))) u = u"
  proof -
    have "handle (TimerFires (Suc (Suc (fresh s)))) u = u" by (simp add: fire_def uf)
    then show ?thesis by (simp add: step_def run_microtasks_idle uf)
  qed
  define v where "v = handle (SocketCloses (Suc (fresh s)) reason) u"
  have ar: "authReject u \<noteq> Some (fresh s)" by (simp add: uf)
  note c = close_spares_subscribe[OF ar, of "Suc (fresh s)" reason, folded v_def]
  have "fresh s < fresh v" using c uf(8) tf(8) by simp
  then have "promises (run_microtasks v) (fresh s) = promises v (fresh s)"
    by (rule run_microtasks_old_promises)
  then have pv: "promises (step (SocketCloses (Suc (fresh s)) reason) u) (fresh s) = Pending"
    using c uf by (simp add: step_def v_def)
  have "awaiting v = []"
    by (simp add: v_def uf onclose_def Let_def scheduleReconnect_def set_ready_def clearTimer_def
        stopPingInterval_def eff_def emit_eq setTimeout_def reject_def settle_def
        split: option.splits)
  then have sv: "step (SocketCloses (Suc (fresh s)) reason) u = v"
    unfolding v_def by (rule step_no_await)
  have cv: "settle_calls (fresh s) (effects v) = settle_calls (fresh s) (effects u)"
    unfolding v_def using uf(5) by (rule late_close)
  show ?thesis
    unfolding t_def[symmetric] u_def[symmetric]
    using tf uf fired pv cv by (simp add: sv)
qed

theorem connect_without_token_witness:
  "\<not> truthy (bearerToken tokenless_module) \<and> \<not> ws_open tokenless_module \<and>
   \<not> isConnecting tokenless_module \<and> ctorThrows tokenless_module = None \<and>
   awaiting tokenless_module = [] \<and>
   effects (run [CallConnect, SocketOpens 2] tokenless_module) =
     [NewWebSocket 2, SetTimeout 3 (ConnectionTimeoutTask 2) 10000, ClearTimer 3,
      Uncaught (Error ''InvalidAccessError'')] \<and>
   ready (run [CallConnect, SocketOpens 2] tokenless_module) 2 = OPEN \<and>
   promises (run [CallConnect, SocketOpens 2] tokenless_module) 1 = Pending \<and>
   promises (run [CallConnect, SocketOpens 2, SocketCloses 2 ''Unauthorized''] tokenless_module) 1 =
     Pending \<and>
   settle_calls 1 (effects
     (run [CallConnect, SocketOpens 2, SocketCloses 2 ''Unauthorized''] tokenless_module)) = []"
proof -
  have h: "\<not> truthy (bearerToken tokenless_module)" "\<not> ws_open tokenless_module"
    "\<not> isConnecting tokenless_module" "ctorThrows tokenless_module = None"
    "awaiting tokenless_module = []"
    and f: "fresh tokenless_module = 1" "effects tokenless_module = []"
    by (simp_all add: tokenless_module_def EventsModule_new_def truthy_def ws_open_def)
  have c: "effects (step CallConnect tokenless_module) =
      [NewWebSocket 2, SetTimeout 3 (ConnectionTimeoutTask 2) 10000]"
    by (simp add: tokenless_module_def model_defs eval_nat_numeral)
  show ?thesis
    using connect_without_token_is_not_rejected[OF h, of "''Unauthorized''"] h
    by (simp add: f c run_Cons run_Nil numeral_2_eq_2 numeral_3_eq_3)
qed

text \<open>
  C7. \<^verbatim>\<open>disconnect()\<close> clears the reconnect timer whose handle the module holds in
  \<^verbatim>\<open>reconnectTimeoutId\<close>, and no other. A reconnect timer that is armed under another
  handle (\<^verbatim>\<open>_scheduleReconnect\<close> stores each new handle over the previous one without
  clearing it, and \<^verbatim>\<open>connect()\<close> clears nothing) survives the call: the closure is
  flagged as voluntary and the socket forgotten, but the timer is still armed, and when
  it fires the module creates a new socket and connects again.
\<close>

theorem disconnect_leaves_reconnect_timer:
  assumes "timers s h = Some ReconnectTask"
    and "reconnectTimeoutId s \<noteq> Some h" and "pingIntervalId s \<noteq> Some h"
    and "ctorThrows s = None"
  shows "isManualDisconnect (step CallDisconnect s) \<and> ws (step CallDisconnect s) = None \<and>
    reconnectTimeoutId (step CallDisconnect s) = None \<and>
    timers (step CallDisconnect s) h = Some ReconnectTask \<and>
    ws (step (TimerFires h) (step CallDisconnect s)) = Some (Suc (fresh (step CallDisconnect s))) \<and>
    ready (step (TimerFires h) (step CallDisconnect s)) (Suc (fresh (step CallDisconnect s))) =
      CONNECTING \<and>
    NewWebSocket (Suc (fresh (step CallDisconnect s)))
      \<in> set (effects (step (TimerFires h) (step CallDisconnect s))) \<and>
    isManualDisconnect (step (TimerFires h) (step CallDisconnect s))"
proof -
  define d where "d = step CallDisconnect s"
  have "\<not> ws_open (disconnect s)" by (simp add: ws_open_def disconnect_fields)
  then have q: "quiet (disconnect s) d"
    unfolding d_def step_def handle.simps by (rule run_microtasks_not_open)
  have df: "isManualDisconnect d" "ws d = None" "reconnectTimeoutId d = None"
    "timers d h = Some ReconnectTask" "ctorThrows d = None"
    using assms by (simp_all add: quiet_fields[OF q] disconnect_fields disconnect_timers
        disconnect_more_fields)
  define d' where "d' = d\<lparr>timers := (timers d)(h := None)\<rparr>"
  define v where "v = snd (private_connect d')"
  define u where "u = step (TimerFires h) d"
  have c: "ctorThrows d' = None" using df by (simp add: d'_def)
  have u: "u = run_microtasks v"
    by (simp add: u_def step_def fire_def df reconnectFired_def v_def d'_def)
  have vf: "ws v = Some (Suc (fresh d))" "ready v (Suc (fresh d)) = CONNECTING"
    "NewWebSocket (Suc (fresh d)) \<in> set (effects v)" "isManualDisconnect v"
    unfolding v_def private_connect_ok[OF c] using df by (simp_all add: d'_def ready_def)
  have "\<not> ws_open v" by (simp add: ws_open_def vf)
  then have qv: "quiet v u" unfolding u by (rule run_microtasks_not_open)
  obtain es where e: "effects u = effects v @ es" using quiet_effects[OF qv] by blast
  have uf: "ws u = Some (Suc (fresh d))" "ready u (Suc (fresh d)) = CONNECTING"
    "NewWebSocket (Suc (fresh d)) \<in> set (effects u)" "isManualDisconnect u"
    using vf by (simp_all add: quiet_fields[OF qv] quiet_ready[OF qv] e)
  show ?thesis
    unfolding d_def[symmetric] u_def[symmetric] using df uf by simp
qed

theorem disconnect_leaves_reconnect_timer_witness:
  "timers twice_lost_module 5 = Some ReconnectTask \<and>
   reconnectTimeoutId twice_lost_module = Some 9 \<and> pingIntervalId twice_lost_module = None \<and>
   ctorThrows twice_lost_module = None \<and>
   timers (run [CallDisconnect] twice_lost_module) 9 = None \<and>
   timers (run [CallDisconnect] twice_lost_module) 5 = Some ReconnectTask \<and>
   isManualDisconnect (run [CallDisconnect] twice_lost_module) \<and>
   ws (run [CallDisconnect, TimerFires 5] twice_lost_module) = Some 11 \<and>
   ready (run [CallDisconnect, TimerFires 5] twice_lost_module) 11 = CONNECTING \<and>
   NewWebSocket 11 \<in> set (effects (run [CallDisconnect, TimerFires 5] twice_lost_module))"
proof -
  have d: "step CallDisconnect twice_lost_module = disconnect twice_lost_module"
    using step_no_await [of CallDisconnect twice_lost_module]
    by (simp add: disconnect_fields twice_lost_module_fields)
  have f: "fresh (step CallDisconnect twice_lost_module) = 10"
    "timers (step CallDisconnect twice_lost_module) 9 = None"
    unfolding d by (simp_all add: disconnect_more_fields disconnect_timers twice_lost_module_fields)
  show ?thesis
    using disconnect_leaves_reconnect_timer [of twice_lost_module 5]
    by (simp add: twice_lost_module_fields f run_Cons run_Nil)
qed

text \<open>
  C8. The close event of a socket finds a subscribe request pending. \<^verbatim>\<open>onclose\<close> rejects
  the pending \<^verbatim>\<open>connect()\<close> promise, but it does not go through the pending subscription
  requests (\<^verbatim>\<open>_cleanup\<close> does, and only \<^verbatim>\<open>disconnect()\<close> calls it): the request stays in
  the pending table, neither \<^verbatim>\<open>resolve\<close> nor \<^verbatim>\<open>reject\<close> of its promise is called, and the
  promise is still pending after the event, whereas \<^verbatim>\<open>disconnect()\<close> in the same state
  rejects it with ``Connection closed''.
\<close>

theorem close_event_leaves_subscribe_pending:
  fixes reason :: string
  assumes "pending_subscribe x p s" and "authReject s \<noteq> Some p"
  shows "promises (step (SocketCloses k reason) s) p = Pending \<and>
    pendingSubscriptions (handle (SocketCloses k reason) s) = pendingSubscriptions s \<and>
    settle_calls p (effects (handle (SocketCloses k reason) s)) = settle_calls p (effects s) \<and>
    promises (step CallDisconnect s) p = Rejected (Error ''Connection closed'')"
proof -
  note c = close_spares_subscribe [OF assms(2), of k reason]
  have "p < fresh (handle (SocketCloses k reason) s)"
    using assms(1) c by (simp add: pending_subscribe_def)
  then have "promises (step (SocketCloses k reason) s) p = promises (handle (SocketCloses k reason) s) p"
    unfolding step_def by (rule run_microtasks_old_promises)
  then have a: "promises (step (SocketCloses k reason) s) p = Pending"
    using assms(1) c by (simp add: pending_subscribe_def)
  have d: "promises (step CallDisconnect s) p = Rejected (Error ''Connection closed'')"
    using disconnect_settles [OF assms(1)] by (intro step_settles) simp
  show ?thesis
    using a d close_event_calls [OF assms(2), of k reason] by simp
qed

theorem close_event_leaves_subscribe_pending_witness:
  "pending_subscribe ''i'' 5 subscribed_module \<and> authReject subscribed_module = None \<and>
   ws subscribed_module = Some 2 \<and>
   promises (run [SocketCloses 2 ''gone''] subscribed_module) 5 = Pending \<and>
   pendingSubscriptions (run [SocketCloses 2 ''gone''] subscribed_module) =
     [(''i'', PendingData 5 (SubscriptionData ''chat'' ''message'' None))] \<and>
   settle_calls 5 (effects (run [SocketCloses 2 ''gone''] subscribed_module)) = [] \<and>
   promises (run [CallDisconnect] subscribed_module) 5 = Rejected (Error ''Connection closed'') \<and>
   promises (run [SocketCloses 2 ''gone'', TimerFires 6] subscribed_module) 5 =
     Rejected (Error ''Subscription timeout'')"
proof -
  have p: "pending_subscribe ''i'' 5 subscribed_module"
    by (simp add: pending_subscribe_def subscribed_module_fields subscribed_module_request)
  have a: "authReject subscribed_module \<noteq> Some 5"
    by (simp add: subscribed_module_request)
  have e: "pendingSubscriptions (run [SocketCloses 2 ''gone''] subscribed_module) =
     [(''i'', PendingData 5 (SubscriptionData ''chat'' ''message'' None))]"
    "settle_calls 5 (effects (run [SocketCloses 2 ''gone''] subscribed_module)) = []"
    "promises (run [SocketCloses 2 ''gone'', TimerFires 6] subscribed_module) 5 =
       Rejected (Error ''Subscription timeout'')"
    by (simp_all add: subscribed_module_def connected_module_eq model_defs registry_defs
        connection_defs eval_nat_numeral)
  show ?thesis
    using close_event_leaves_subscribe_pending [OF p a, of 2 "''gone''"] p
    by (simp add: e [unfolded run_Cons run_Nil] subscribed_module_fields subscribed_module_request
        run_Cons run_Nil)
qed

end
